theory Spec2Isabelle
  imports Complex_Main
begin

section \<open>FGP-TV denoising (FGP\_TV\_core.c): the memory model\<close>

text \<open>
  The C function \<^verbatim>\<open>TV_FGP_CPU\<close> works on raw buffers of \<^verbatim>\<open>float\<close> that it reaches
  through pointers. The store is a map from addresses to samples; an address counts in
  units of one \<^verbatim>\<open>float\<close>, so that \<^verbatim>\<open>p[i]\<close> is the store at \<open>p + i\<close>. Two pointers
  may name the same memory, and nothing in the model forbids it. A block that
  \<^verbatim>\<open>malloc\<close> returns holds whatever the store holds there.

  Samples are real numbers, as in the data model of the specification ("real-valued
  samples"), and the arithmetic on them is exact: the theorems describe the runs of the C
  code in which every \<^verbatim>\<open>float\<close> operation is exact and finite. Rounding, overflow and
  the non-finite values of \<^verbatim>\<open>float\<close> are outside the model, with one exception: the
  relative residual of the stopping rule is a quotient whose divisor can be zero, and it
  is modelled with its IEEE 754 result (\<open>fdiv\<close> below). For \<open>lambda = 0\<close> the multiplier
  \<^verbatim>\<open>1.0f/(8.0f*lambda)\<close> of the dual step is infinite in C, which a real cannot
  represent: the sample values that the model computes are those of the C code for
  \<open>lambda \<noteq> 0\<close> only.

  The C \<^verbatim>\<open>int\<close> variables are integers; their overflow is not modelled.
  The OpenMP loops are run in source order, one index after the other.
\<close>

type_synonym addr = int
type_synonym heap = "addr \<Rightarrow> real"

text \<open>\<^verbatim>\<open>for (i = lo; i < n; i++) s = body i s\<close>\<close>

function for_loop :: "int \<Rightarrow> int \<Rightarrow> (int \<Rightarrow> 's \<Rightarrow> 's) \<Rightarrow> 's \<Rightarrow> 's" where
  "for_loop i n body s = (if i < n then for_loop (i + 1) n body (body i s) else s)"
  by pat_completeness auto
termination
  by (relation "measure (\<lambda>(i, n, body, s). nat (n - i))") auto

declare for_loop.simps [simp del]

text \<open>
  The value of a \<^verbatim>\<open>float\<close> quotient of two reals under IEEE 754: a zero divisor gives
  an infinity, or NaN for \<open>0/0\<close>. The divisors of this program are never \<open>-0\<close>.
\<close>

datatype fval = Fin real | PInf | NInf | NaN

definition fdiv :: "real \<Rightarrow> real \<Rightarrow> fval" where
  "fdiv x y = (if y \<noteq> 0 then Fin (x / y) else if 0 < x then PInf else if x < 0 then NInf else NaN)"

text \<open>\<^verbatim>\<open>r < e\<close> for a finite \<open>e\<close>: false for NaN and for plus infinity.\<close>

fun flt :: "fval \<Rightarrow> real \<Rightarrow> bool" where
  "flt (Fin v) e = (v < e)"
| "flt NInf e = True"
| "flt PInf e = False"
| "flt NaN e = False"

section \<open>The 2D operators\<close>

definition Obj_func2D :: "addr \<Rightarrow> addr \<Rightarrow> addr \<Rightarrow> addr \<Rightarrow> real \<Rightarrow> int \<Rightarrow> int \<Rightarrow> heap \<Rightarrow> heap" where
  "Obj_func2D A D R1 R2 lambda dimX dimY =
     for_loop 0 dimX (\<lambda>i. for_loop 0 dimY (\<lambda>j h.
       let index = j * dimX + i;
           val1 = (if i = 0 then 0 else h (R1 + (j * dimX + (i - 1))));
           val2 = (if j = 0 then 0 else h (R2 + ((j - 1) * dimX + i)))
       in h(D + index := h (A + index) - lambda * (h (R1 + index) + h (R2 + index) - val1 - val2))))"

definition Grad_func2D :: "addr \<Rightarrow> addr \<Rightarrow> addr \<Rightarrow> addr \<Rightarrow> addr \<Rightarrow> real \<Rightarrow> int \<Rightarrow> int \<Rightarrow> heap \<Rightarrow> heap" where
  "Grad_func2D P1 P2 D R1 R2 lambda dimX dimY =
     (let multip = 1 / (8 * lambda) in
      for_loop 0 dimX (\<lambda>i. for_loop 0 dimY (\<lambda>j h.
        let index = j * dimX + i;
            val1 = (if i = dimX - 1 then 0 else h (D + index) - h (D + (j * dimX + (i + 1))));
            val2 = (if j = dimY - 1 then 0 else h (D + index) - h (D + ((j + 1) * dimX + i)));
            h = h(P1 + index := h (R1 + index) + multip * val1)
        in h(P2 + index := h (R2 + index) + multip * val2))))"

definition Proj_func2D :: "addr \<Rightarrow> addr \<Rightarrow> int \<Rightarrow> int \<Rightarrow> int \<Rightarrow> heap \<Rightarrow> heap" where
  "Proj_func2D P1 P2 methTV dimX dimY =
     (if methTV = 0 then
        for_loop 0 dimX (\<lambda>i. for_loop 0 dimY (\<lambda>j h.
          let index = j * dimX + i;
              denom = (h (P1 + index))\<^sup>2 + (h (P2 + index))\<^sup>2
          in if denom > 1 then
               let sq_denom = 1 / sqrt denom;
                   h = h(P1 + index := h (P1 + index) * sq_denom)
               in h(P2 + index := h (P2 + index) * sq_denom)
             else h))
      else
        for_loop 0 dimX (\<lambda>i. for_loop 0 dimY (\<lambda>j h.
          let index = j * dimX + i;
              val1 = \<bar>h (P1 + index)\<bar>;
              val2 = \<bar>h (P2 + index)\<bar>;
              val1 = (if val1 < 1 then 1 else val1);
              val2 = (if val2 < 1 then 1 else val2);
              h = h(P1 + index := h (P1 + index) / val1)
          in h(P2 + index := h (P2 + index) / val2))))"

definition Rupd_func2D :: "addr \<Rightarrow> addr \<Rightarrow> addr \<Rightarrow> addr \<Rightarrow> addr \<Rightarrow> addr \<Rightarrow> real \<Rightarrow> real \<Rightarrow> int \<Rightarrow> int \<Rightarrow> heap \<Rightarrow> heap" where
  "Rupd_func2D P1 P1_old P2 P2_old R1 R2 tkp1 tk dimX dimY =
     (let multip = (tk - 1) / tkp1 in
      for_loop 0 dimX (\<lambda>i. for_loop 0 dimY (\<lambda>j h.
        let index = j * dimX + i;
            h = h(R1 + index := h (P1 + index) + multip * (h (P1 + index) - h (P1_old + index)))
        in h(R2 + index := h (P2 + index) + multip * (h (P2 + index) - h (P2_old + index))))))"

section \<open>The 3D operators\<close>

definition Obj_func3D :: "addr \<Rightarrow> addr \<Rightarrow> addr \<Rightarrow> addr \<Rightarrow> addr \<Rightarrow> real \<Rightarrow> int \<Rightarrow> int \<Rightarrow> int \<Rightarrow> heap \<Rightarrow> heap" where
  "Obj_func3D A D R1 R2 R3 lambda dimX dimY dimZ =
     for_loop 0 dimX (\<lambda>i. for_loop 0 dimY (\<lambda>j. for_loop 0 dimZ (\<lambda>k h.
       let index = (dimX * dimY) * k + j * dimX + i;
           val1 = (if i = 0 then 0 else h (R1 + ((dimX * dimY) * k + j * dimX + (i - 1))));
           val2 = (if j = 0 then 0 else h (R2 + ((dimX * dimY) * k + (j - 1) * dimX + i)));
           val3 = (if k = 0 then 0 else h (R3 + ((dimX * dimY) * (k - 1) + j * dimX + i)))
       in h(D + index := h (A + index)
              - lambda * (h (R1 + index) + h (R2 + index) + h (R3 + index) - val1 - val2 - val3)))))"

definition Grad_func3D :: "addr \<Rightarrow> addr \<Rightarrow> addr \<Rightarrow> addr \<Rightarrow> addr \<Rightarrow> addr \<Rightarrow> addr \<Rightarrow> real \<Rightarrow> int \<Rightarrow> int \<Rightarrow> int \<Rightarrow> heap \<Rightarrow> heap" where
  "Grad_func3D P1 P2 P3 D R1 R2 R3 lambda dimX dimY dimZ =
     (let multip = 1 / (8 * lambda) in
      for_loop 0 dimX (\<lambda>i. for_loop 0 dimY (\<lambda>j. for_loop 0 dimZ (\<lambda>k h.
        let index = (dimX * dimY) * k + j * dimX + i;
            val1 = (if i = dimX - 1 then 0
                    else h (D + index) - h (D + ((dimX * dimY) * k + j * dimX + (i + 1))));
            val2 = (if j = dimY - 1 then 0
                    else h (D + index) - h (D + ((dimX * dimY) * k + (j + 1) * dimX + i)));
            val3 = (if k = dimZ - 1 then 0
                    else h (D + index) - h (D + ((dimX * dimY) * (k + 1) + j * dimX + i)));
            h = h(P1 + index := h (R1 + index) + multip * val1);
            h = h(P2 + index := h (R2 + index) + multip * val2)
        in h(P3 + index := h (R3 + index) + multip * val3)))))"

definition Proj_func3D :: "addr \<Rightarrow> addr \<Rightarrow> addr \<Rightarrow> int \<Rightarrow> int \<Rightarrow> int \<Rightarrow> int \<Rightarrow> heap \<Rightarrow> heap" where
  "Proj_func3D P1 P2 P3 methTV dimX dimY dimZ =
     (if methTV = 0 then
        for_loop 0 dimX (\<lambda>i. for_loop 0 dimY (\<lambda>j. for_loop 0 dimZ (\<lambda>k h.
          let index = (dimX * dimY) * k + j * dimX + i;
              denom = (h (P1 + index))\<^sup>2 + (h (P2 + index))\<^sup>2 + (h (P3 + index))\<^sup>2
          in if denom > 1 then
               let sq_denom = 1 / sqrt denom;
                   h = h(P1 + index := h (P1 + index) * sq_denom);
                   h = h(P2 + index := h (P2 + index) * sq_denom)
               in h(P3 + index := h (P3 + index) * sq_denom)
             else h)))
      else
        for_loop 0 dimX (\<lambda>i. for_loop 0 dimY (\<lambda>j. for_loop 0 dimZ (\<lambda>k h.
          let index = (dimX * dimY) * k + j * dimX + i;
              val1 = \<bar>h (P1 + index)\<bar>;
              val2 = \<bar>h (P2 + index)\<bar>;
              val3 = \<bar>h (P3 + index)\<bar>;
              val1 = (if val1 < 1 then 1 else val1);
              val2 = (if val2 < 1 then 1 else val2);
              val3 = (if val3 < 1 then 1 else val3);
              h = h(P1 + index := h (P1 + index) / val1);
              h = h(P2 + index := h (P2 + index) / val2)
          in h(P3 + index := h (P3 + index) / val3)))))"

definition Rupd_func3D :: "addr \<Rightarrow> addr \<Rightarrow> addr \<Rightarrow> addr \<Rightarrow> addr \<Rightarrow> addr \<Rightarrow> addr \<Rightarrow> addr \<Rightarrow> addr \<Rightarrow> real \<Rightarrow> real \<Rightarrow> int \<Rightarrow> int \<Rightarrow> int \<Rightarrow> heap \<Rightarrow> heap" where
  "Rupd_func3D P1 P1_old P2 P2_old P3 P3_old R1 R2 R3 tkp1 tk dimX dimY dimZ =
     (let multip = (tk - 1) / tkp1 in
      for_loop 0 dimX (\<lambda>i. for_loop 0 dimY (\<lambda>j. for_loop 0 dimZ (\<lambda>k h.
        let index = (dimX * dimY) * k + j * dimX + i;
            h = h(R1 + index := h (P1 + index) + multip * (h (P1 + index) - h (P1_old + index)));
            h = h(R2 + index := h (P2 + index) + multip * (h (P2 + index) - h (P2_old + index)))
        in h(R3 + index := h (P3 + index) + multip * (h (P3 + index) - h (P3_old + index)))))))"

section \<open>The helper copyIm\<close>

text \<open>
  Modelled from the spec: \<^verbatim>\<open>copyIm\<close> is called by the driver but defined outside this
  source file. The specification's step 9 says what the calls do: "Snapshot Output into
  Output\_prev and P\_d into P\_d\_prev". So \<open>copyIm A U dimX dimY dimZ\<close> copies the
  \<open>dimX * dimY * dimZ\<close> samples at \<open>A\<close> to \<open>U\<close>.
\<close>

definition copyIm :: "addr \<Rightarrow> addr \<Rightarrow> int \<Rightarrow> int \<Rightarrow> int \<Rightarrow> heap \<Rightarrow> heap" where
  "copyIm A U dimX dimY dimZ = for_loop 0 (dimX * dimY * dimZ) (\<lambda>j h. h(U + j := h (A + j)))"

section \<open>The samples as IEEE 754 values\<close>

text \<open>
  The operators above compute with real numbers. The C code computes with \<^verbatim>\<open>float\<close>:
  every operation rounds its result, may overflow to an infinity, and may produce or
  pass on a NaN. The rest of this section, and the second driver below, follow the same
  source lines once more over a store of IEEE 754 values (\<open>fval\<close>), for the properties
  that depend on rounding or on NaN.

  The arithmetic is that of a C implementation with \<^verbatim>\<open>FLT_EVAL_METHOD\<close> 0 (x86-64 with
  SSE, AArch64): an operation on two \<^verbatim>\<open>float\<close> operands is rounded to binary32, an
  operation with a \<^verbatim>\<open>double\<close> operand to binary64, both to nearest with ties to even;
  no multiplication and addition are fused. \<^verbatim>\<open>sqrt\<close>, \<^verbatim>\<open>pow\<close> and \<^verbatim>\<open>fabs\<close> are
  the functions of \<^verbatim>\<open>math.h\<close> on \<^verbatim>\<open>double\<close>; \<^verbatim>\<open>sqrt\<close> is correctly rounded,
  \<^verbatim>\<open>pow(x,2)\<close> is the correctly rounded square, and \<^verbatim>\<open>fabs\<close> is exact. Storing a
  \<^verbatim>\<open>double\<close> in a \<^verbatim>\<open>float\<close> variable rounds it to binary32 (\<open>cvt32\<close>). The model
  has one zero: the sign of a zero is not represented, and a zero divisor counts as \<open>+0\<close>.
\<close>

type_synonym fheap = "addr \<Rightarrow> fval"

text \<open>
  Rounding to nearest, ties to even, in a binary format with \<open>p\<close> significand bits and
  least normal exponent \<open>emin\<close>. \<open>expo x\<close> is the exponent of the binade of \<open>x\<close>; the
  spacing of the format around \<open>x\<close> is \<open>2\<close> to the \<open>max (expo x) emin - (p - 1)\<close>, which
  covers the subnormal numbers. A rounded value above the largest finite number of the
  format (exponent \<open>emax\<close>) overflows to an infinity.
\<close>

definition expo :: "real \<Rightarrow> int" where
  "expo x = \<lfloor>log 2 \<bar>x\<bar>\<rfloor>"

definition round_even :: "real \<Rightarrow> int" where
  "round_even y =
     (let n = \<lfloor>y\<rfloor>; r = y - of_int n
      in if r < 1 / 2 then n else if 1 / 2 < r then n + 1 else if even n then n else n + 1)"

definition rnd :: "nat \<Rightarrow> int \<Rightarrow> real \<Rightarrow> real" where
  "rnd p emin x =
     (if x = 0 then 0
      else let q = 2 powr of_int (max (expo x) emin - (int p - 1))
           in of_int (round_even (x / q)) * q)"

definition to_fmt :: "nat \<Rightarrow> int \<Rightarrow> int \<Rightarrow> real \<Rightarrow> fval" where
  "to_fmt p emin emax x =
     (let r = rnd p emin x
      in if (2 - 2 powr (1 - of_int (int p))) * 2 powr of_int emax < \<bar>r\<bar>
         then (if 0 < r then PInf else NInf)
         else Fin r)"

text \<open>binary32 (\<^verbatim>\<open>float\<close>) and binary64 (\<^verbatim>\<open>double\<close>).\<close>

definition f32 :: "real \<Rightarrow> fval" where
  "f32 = to_fmt 24 (- 126) 127"


text \<open>
  The operations, with the rounding \<open>r\<close> of the format in which C evaluates them
  (\<open>f32\<close> or \<open>f64\<close>), and their IEEE 754 results on infinities and NaN.
\<close>

fun fneg :: "fval \<Rightarrow> fval" where
  "fneg (Fin x) = Fin (- x)"
| "fneg PInf = NInf"
| "fneg NInf = PInf"
| "fneg NaN = NaN"

fun fadd :: "(real \<Rightarrow> fval) \<Rightarrow> fval \<Rightarrow> fval \<Rightarrow> fval" where
  "fadd r (Fin x) (Fin y) = r (x + y)"
| "fadd r NaN v = NaN"
| "fadd r u NaN = NaN"
| "fadd r PInf NInf = NaN"
| "fadd r NInf PInf = NaN"
| "fadd r PInf v = PInf"
| "fadd r u PInf = PInf"
| "fadd r NInf v = NInf"
| "fadd r u NInf = NInf"

definition fsub :: "(real \<Rightarrow> fval) \<Rightarrow> fval \<Rightarrow> fval \<Rightarrow> fval" where
  "fsub r u v = fadd r u (fneg v)"

fun fsign :: "fval \<Rightarrow> int" where
  "fsign (Fin x) = (if 0 < x then 1 else if x < 0 then - 1 else 0)"
| "fsign PInf = 1"
| "fsign NInf = - 1"
| "fsign NaN = 0"

fun fmul :: "(real \<Rightarrow> fval) \<Rightarrow> fval \<Rightarrow> fval \<Rightarrow> fval" where
  "fmul r (Fin x) (Fin y) = r (x * y)"
| "fmul r NaN v = NaN"
| "fmul r u NaN = NaN"
| "fmul r u v =
     (if fsign u * fsign v = 0 then NaN else if 0 < fsign u * fsign v then PInf else NInf)"






subsection \<open>The 2D operators\<close>

text \<open>
  \<^verbatim>\<open>D[index] = A[index] - lambda*(R1[index] + R2[index] - val1 - val2);\<close> with every
  operation in \<^verbatim>\<open>float\<close>.
\<close>

definition Obj_func2D_f :: "addr \<Rightarrow> addr \<Rightarrow> addr \<Rightarrow> addr \<Rightarrow> fval \<Rightarrow> int \<Rightarrow> int \<Rightarrow> fheap \<Rightarrow> fheap" where
  "Obj_func2D_f A D R1 R2 lambda dimX dimY =
     for_loop 0 dimX (\<lambda>i. for_loop 0 dimY (\<lambda>j h.
       let index = j * dimX + i;
           val1 = (if i = 0 then Fin 0 else h (R1 + (j * dimX + (i - 1))));
           val2 = (if j = 0 then Fin 0 else h (R2 + ((j - 1) * dimX + i)))
       in h(D + index := fsub f32 (h (A + index))
              (fmul f32 lambda
                 (fsub f32 (fsub f32 (fadd f32 (h (R1 + index)) (h (R2 + index))) val1) val2)))))"




subsection \<open>The 3D operators\<close>

definition Obj_func3D_f :: "addr \<Rightarrow> addr \<Rightarrow> addr \<Rightarrow> addr \<Rightarrow> addr \<Rightarrow> fval \<Rightarrow> int \<Rightarrow> int \<Rightarrow> int \<Rightarrow> fheap \<Rightarrow> fheap" where
  "Obj_func3D_f A D R1 R2 R3 lambda dimX dimY dimZ =
     for_loop 0 dimX (\<lambda>i. for_loop 0 dimY (\<lambda>j. for_loop 0 dimZ (\<lambda>k h.
       let index = (dimX * dimY) * k + j * dimX + i;
           val1 = (if i = 0 then Fin 0 else h (R1 + ((dimX * dimY) * k + j * dimX + (i - 1))));
           val2 = (if j = 0 then Fin 0 else h (R2 + ((dimX * dimY) * k + (j - 1) * dimX + i)));
           val3 = (if k = 0 then Fin 0 else h (R3 + ((dimX * dimY) * (k - 1) + j * dimX + i)))
       in h(D + index := fsub f32 (h (A + index))
              (fmul f32 lambda
                 (fsub f32 (fsub f32 (fsub f32
                    (fadd f32 (fadd f32 (h (R1 + index)) (h (R2 + index))) (h (R3 + index)))
                    val1) val2) val3))))))"





section \<open>The driver\<close>

text \<open>The arguments of \<^verbatim>\<open>TV_FGP_CPU\<close>.\<close>

record config =
  Input :: addr
  Output :: addr
  lambda :: real
  iter :: int
  epsil :: real
  methodTV :: int
  nonneg :: int
  printM :: int
  dimX :: int
  dimY :: int
  dimZ :: int

text \<open>
  The pointers that the calls of \<^verbatim>\<open>malloc\<close> return (the 2D branch allocates seven of
  them, the 3D branch all ten). \<^verbatim>\<open>malloc\<close> is taken to succeed and writes nothing: the
  blocks hold whatever the store held there before the call. \<^verbatim>\<open>free\<close> changes no sample.
\<close>

record blocks =
  Output_prev :: addr
  P1 :: addr
  P2 :: addr
  P3 :: addr
  P1_prev :: addr
  P2_prev :: addr
  P3_prev :: addr
  R1 :: addr
  R2 :: addr
  R3 :: addr

text \<open>
  The local variables that live across iterations, and the store. \<open>nruns\<close> is not a
  variable of the C code: it counts how many times the loop body has been entered.
\<close>

record locals =
  tk :: real
  tkp1 :: real
  count :: int
  nruns :: int
  mem :: heap

text \<open>\<^verbatim>\<open>if (nonneg == 1) for(j=0; j<n; j++) {if (Output[j] < 0.0f) Output[j] = 0.0f;}\<close>\<close>

definition clamp :: "config \<Rightarrow> int \<Rightarrow> heap \<Rightarrow> heap" where
  "clamp c n h =
     (if nonneg c = 1
      then for_loop 0 n (\<lambda>j h. if h (Output c + j) < 0 then h(Output c + j := 0) else h) h
      else h)"

text \<open>The two sums of the stopping rule, \<^verbatim>\<open>re\<close> and \<^verbatim>\<open>re1\<close>, over \<open>n\<close> samples.\<close>

definition resid_sums :: "addr \<Rightarrow> addr \<Rightarrow> int \<Rightarrow> heap \<Rightarrow> real \<times> real" where
  "resid_sums Out Out_prev n h =
     for_loop 0 n (\<lambda>j (re, re1). (re + (h (Out + j) - h (Out_prev + j))\<^sup>2, re1 + (h (Out + j))\<^sup>2))
       (0, 0)"

text \<open>\<^verbatim>\<open>re = sqrt(re)/sqrt(re1)\<close>\<close>

definition rel_resid :: "addr \<Rightarrow> addr \<Rightarrow> int \<Rightarrow> heap \<Rightarrow> fval" where
  "rel_resid Out Out_prev n h =
     (case resid_sums Out Out_prev n h of (re, re1) \<Rightarrow> fdiv (sqrt re) (sqrt re1))"

text \<open>
  One pass through the body of the 2D loop, from its first statement to
  \<^verbatim>\<open>if (re < epsil) count++;\<close>
\<close>

definition body2D :: "config \<Rightarrow> blocks \<Rightarrow> locals \<Rightarrow> locals" where
  "body2D c b s =
     (let h = Obj_func2D (Input c) (Output c) (R1 b) (R2 b) (lambda c) (dimX c) (dimY c) (mem s);
          h = clamp c (dimX c * dimY c) h;
          h = Grad_func2D (P1 b) (P2 b) (Output c) (R1 b) (R2 b) (lambda c) (dimX c) (dimY c) h;
          h = Proj_func2D (P1 b) (P2 b) (methodTV c) (dimX c) (dimY c) h;
          t = (1 + sqrt (1 + 4 * tk s * tk s)) * 0.5;
          h = Rupd_func2D (P1 b) (P1_prev b) (P2 b) (P2_prev b) (R1 b) (R2 b) t (tk s) (dimX c) (dimY c) h;
          re = rel_resid (Output c) (Output_prev b) (dimX c * dimY c) h
      in s\<lparr>tkp1 := t, count := (if flt re (epsil c) then count s + 1 else count s),
           nruns := nruns s + 1, mem := h\<rparr>)"

text \<open>The rest of the body, after \<^verbatim>\<open>if (count > 4) break;\<close>: the snapshots and \<^verbatim>\<open>tk = tkp1\<close>.\<close>

definition tail2D :: "config \<Rightarrow> blocks \<Rightarrow> locals \<Rightarrow> locals" where
  "tail2D c b s =
     (let h = copyIm (Output c) (Output_prev b) (dimX c) (dimY c) 1 (mem s);
          h = copyIm (P1 b) (P1_prev b) (dimX c) (dimY c) 1 h;
          h = copyIm (P2 b) (P2_prev b) (dimX c) (dimY c) 1 h
      in s\<lparr>tk := tkp1 s, mem := h\<rparr>)"

text \<open>\<^verbatim>\<open>for(ll=0; ll<iter; ll++) { ... if (count > 4) break; ... }\<close>, returning the final \<^verbatim>\<open>ll\<close>.\<close>

function loop2D :: "config \<Rightarrow> blocks \<Rightarrow> int \<Rightarrow> locals \<Rightarrow> int \<times> locals" where
  "loop2D c b ll s =
     (if ll < iter c then
        (let s' = body2D c b s
         in if count s' > 4 then (ll, s') else loop2D c b (ll + 1) (tail2D c b s'))
      else (ll, s))"
  by pat_completeness auto
termination
  by (relation "measure (\<lambda>(c, b, ll, s). nat (iter c - ll))") auto

declare loop2D.simps [simp del]

definition body3D :: "config \<Rightarrow> blocks \<Rightarrow> locals \<Rightarrow> locals" where
  "body3D c b s =
     (let h = Obj_func3D (Input c) (Output c) (R1 b) (R2 b) (R3 b) (lambda c) (dimX c) (dimY c) (dimZ c) (mem s);
          h = clamp c (dimX c * dimY c * dimZ c) h;
          h = Grad_func3D (P1 b) (P2 b) (P3 b) (Output c) (R1 b) (R2 b) (R3 b) (lambda c)
                (dimX c) (dimY c) (dimZ c) h;
          h = Proj_func3D (P1 b) (P2 b) (P3 b) (methodTV c) (dimX c) (dimY c) (dimZ c) h;
          t = (1 + sqrt (1 + 4 * tk s * tk s)) * 0.5;
          h = Rupd_func3D (P1 b) (P1_prev b) (P2 b) (P2_prev b) (P3 b) (P3_prev b) (R1 b) (R2 b) (R3 b)
                t (tk s) (dimX c) (dimY c) (dimZ c) h;
          re = rel_resid (Output c) (Output_prev b) (dimX c * dimY c * dimZ c) h
      in s\<lparr>tkp1 := t, count := (if flt re (epsil c) then count s + 1 else count s),
           nruns := nruns s + 1, mem := h\<rparr>)"

definition tail3D :: "config \<Rightarrow> blocks \<Rightarrow> locals \<Rightarrow> locals" where
  "tail3D c b s =
     (let h = copyIm (Output c) (Output_prev b) (dimX c) (dimY c) (dimZ c) (mem s);
          h = copyIm (P1 b) (P1_prev b) (dimX c) (dimY c) (dimZ c) h;
          h = copyIm (P2 b) (P2_prev b) (dimX c) (dimY c) (dimZ c) h;
          h = copyIm (P3 b) (P3_prev b) (dimX c) (dimY c) (dimZ c) h
      in s\<lparr>tk := tkp1 s, mem := h\<rparr>)"

function loop3D :: "config \<Rightarrow> blocks \<Rightarrow> int \<Rightarrow> locals \<Rightarrow> int \<times> locals" where
  "loop3D c b ll s =
     (if ll < iter c then
        (let s' = body3D c b s
         in if count s' > 4 then (ll, s') else loop3D c b (ll + 1) (tail3D c b s'))
      else (ll, s))"
  by pat_completeness auto
termination
  by (relation "measure (\<lambda>(c, b, ll, s). nat (iter c - ll))") auto

declare loop3D.simps [simp del]

text \<open>
  What a call leaves behind: the value it returns (\<^verbatim>\<open>*Output\<close>), the final \<^verbatim>\<open>ll\<close>, the
  line it prints when \<^verbatim>\<open>printM == 1\<close> (given by the \<^verbatim>\<open>ll\<close> it reports), and the locals
  with the store.
\<close>

record outcome =
  ret :: real
  ll_end :: int
  printed :: "int option"
  final :: locals

text \<open>\<^verbatim>\<open>float tk = 1.0f; float tkp1=1.0f; int count = 0;\<close>\<close>

definition entry :: "heap \<Rightarrow> locals" where
  "entry h = \<lparr>tk = 1, tkp1 = 1, count = 0, nruns = 0, mem = h\<rparr>"

definition TV_FGP_CPU :: "config \<Rightarrow> blocks \<Rightarrow> heap \<Rightarrow> outcome" where
  "TV_FGP_CPU c b h =
     (let (ll, s) = (if dimZ c \<le> 1 then loop2D c b 0 (entry h) else loop3D c b 0 (entry h))
      in \<lparr>ret = mem s (Output c), ll_end = ll,
          printed = (if printM c = 1 then Some ll else None), final = s\<rparr>)"

section \<open>The driver over IEEE 754 values\<close>


text \<open>
  \<^verbatim>\<open>if (nonneg == 1) for(j=0; j<n; j++) {if (Output[j] < 0.0f) Output[j] = 0.0f;}\<close>
  The comparison is false for a NaN.
\<close>

definition clamp_f :: "config \<Rightarrow> int \<Rightarrow> fheap \<Rightarrow> fheap" where
  "clamp_f c n h =
     (if nonneg c = 1
      then for_loop 0 n (\<lambda>j h. if flt (h (Output c + j)) 0 then h(Output c + j := Fin 0) else h) h
      else h)"















section \<open>Buffers and example calls\<close>

text \<open>
  \<^verbatim>\<open>DimTotal\<close> as the driver computes it, and the pointers it allocates in each branch.
\<close>

definition DimTotal :: "config \<Rightarrow> int" where
  "DimTotal c = (if dimZ c \<le> 1 then dimX c * dimY c else dimX c * dimY c * dimZ c)"

definition allocated :: "config \<Rightarrow> blocks \<Rightarrow> addr list" where
  "allocated c b =
     (if dimZ c \<le> 1 then [Output_prev b, P1 b, P2 b, P1_prev b, P2_prev b, R1 b, R2 b]
      else [Output_prev b, P1 b, P2 b, P3 b, P1_prev b, P2_prev b, P3_prev b, R1 b, R2 b, R3 b])"

text \<open>The addresses of a buffer of \<open>n\<close> samples at \<open>p\<close>.\<close>

definition region :: "addr \<Rightarrow> int \<Rightarrow> addr set" where
  "region p n = {p ..< p + n}"

text \<open>The addresses of Output and of the allocated blocks.\<close>

definition footprint :: "config \<Rightarrow> blocks \<Rightarrow> addr set" where
  "footprint c b = region (Output c) (DimTotal c) \<union> (\<Union>p \<in> set (allocated c b). region p (DimTotal c))"

text \<open>Two buffers of \<open>n\<close> samples that share no address.\<close>

definition sep :: "int \<Rightarrow> addr \<Rightarrow> addr \<Rightarrow> bool" where
  "sep n p q = (n \<le> 0 \<or> p + n \<le> q \<or> q + n \<le> p)"



text \<open>Every Output sample is at least 0.\<close>

definition nonneg_out :: "config \<Rightarrow> heap \<Rightarrow> bool" where
  "nonneg_out c h = (\<forall>j \<in> {0 ..< DimTotal c}. 0 \<le> h (Output c + j))"

text \<open>The body of the loop of the branch that a call takes, before and after the \<^verbatim>\<open>break\<close>.\<close>

definition loop_body :: "config \<Rightarrow> blocks \<Rightarrow> locals \<Rightarrow> locals" where
  "loop_body c b s = (if dimZ c \<le> 1 then body2D c b s else body3D c b s)"

definition loop_tail :: "config \<Rightarrow> blocks \<Rightarrow> locals \<Rightarrow> locals" where
  "loop_tail c b s = (if dimZ c \<le> 1 then tail2D c b s else tail3D c b s)"

text \<open>The loop of the branch that a call takes.\<close>

definition loop_run :: "config \<Rightarrow> blocks \<Rightarrow> int \<Rightarrow> locals \<Rightarrow> int \<times> locals" where
  "loop_run c b ll s = (if dimZ c \<le> 1 then loop2D c b ll s else loop3D c b ll s)"

text \<open>
  The value of \<^verbatim>\<open>re\<close> at the test \<^verbatim>\<open>if (re < epsil) count++;\<close> of the iteration that
  starts in the state \<open>s\<close>, and the divisor \<^verbatim>\<open>sqrt(re1)\<close> of that iteration.
\<close>

definition residual :: "config \<Rightarrow> blocks \<Rightarrow> locals \<Rightarrow> fval" where
  "residual c b s = rel_resid (Output c) (Output_prev b) (DimTotal c) (mem (loop_body c b s))"

definition denominator :: "config \<Rightarrow> blocks \<Rightarrow> locals \<Rightarrow> real" where
  "denominator c b s = sqrt (snd (resid_sums (Output c) (Output_prev b) (DimTotal c) (mem (loop_body c b s))))"

text \<open>
  Stated from the claim's words, to compare with the loop: the state at the head of
  iteration \<open>n\<close> when no \<^verbatim>\<open>break\<close> was taken before, and the number of iterations
  among the first \<open>n\<close> whose residual was below the tolerance.
\<close>

fun head_state :: "config \<Rightarrow> blocks \<Rightarrow> heap \<Rightarrow> nat \<Rightarrow> locals" where
  "head_state c b h 0 = entry h"
| "head_state c b h (Suc n) = loop_tail c b (loop_body c b (head_state c b h n))"

fun dips :: "config \<Rightarrow> blocks \<Rightarrow> heap \<Rightarrow> nat \<Rightarrow> int" where
  "dips c b h 0 = 0"
| "dips c b h (Suc n) =
     dips c b h n + (if flt (residual c b (head_state c b h n)) (epsil c) then 1 else 0)"

text \<open>
  For the run on a constant input: every sample of the \<open>X\<close> by \<open>Y\<close> array at \<open>p\<close> is \<open>v\<close>;
  the buffers of a list are pairwise apart; the buffers of the 2D branch; and the state
  in which the algorithm starts when its dual arrays are zero (Input constant, the
  momentum-carried duals zero, and the previous duals zero unless \<open>tk = 1\<close>, when the
  momentum update ignores them).
\<close>

definition const_on :: "int \<Rightarrow> int \<Rightarrow> addr \<Rightarrow> real \<Rightarrow> heap \<Rightarrow> bool" where
  "const_on X Y p v h = (\<forall>i \<in> {0 ..< X}. \<forall>j \<in> {0 ..< Y}. h (p + (j * X + i)) = v)"

fun all_apart :: "int \<Rightarrow> addr list \<Rightarrow> bool" where
  "all_apart n [] = True"
| "all_apart n (p # ps) = ((\<forall>q \<in> set ps. sep n p q \<and> sep n q p) \<and> all_apart n ps)"

definition buffers2D :: "config \<Rightarrow> blocks \<Rightarrow> addr list" where
  "buffers2D c b =
     [Input c, Output c, Output_prev b, P1 b, P2 b, P1_prev b, P2_prev b, R1 b, R2 b]"

definition duals_zero :: "config \<Rightarrow> blocks \<Rightarrow> real \<Rightarrow> locals \<Rightarrow> bool" where
  "duals_zero c b v s =
     (const_on (dimX c) (dimY c) (Input c) v (mem s) \<and>
      const_on (dimX c) (dimY c) (R1 b) 0 (mem s) \<and>
      const_on (dimX c) (dimY c) (R2 b) 0 (mem s) \<and>
      (tk s = 1 \<or>
       const_on (dimX c) (dimY c) (P1_prev b) 0 (mem s) \<and>
       const_on (dimX c) (dimY c) (P2_prev b) 0 (mem s)))"

text \<open>A store that holds the listed samples, and 0 elsewhere.\<close>

primrec heap_of :: "(addr \<times> real) list \<Rightarrow> heap" where
  "heap_of [] = (\<lambda>a. 0)"
| "heap_of (x # xs) = (heap_of xs)(fst x := snd x)"

text \<open>
  Example calls. The buffers start at the addresses 0 (Input), 100 (Output) and at
  200, 300, ... (the allocated blocks), so that buffers of up to 100 samples do not overlap.
\<close>

definition blk :: blocks where
  "blk = \<lparr>Output_prev = 200, P1 = 300, P2 = 400, P3 = 500, P1_prev = 600, P2_prev = 700,
     P3_prev = 800, R1 = 900, R2 = 1000, R3 = 1100\<rparr>"

definition cfg :: "real \<Rightarrow> int \<Rightarrow> real \<Rightarrow> int \<Rightarrow> int \<Rightarrow> int \<Rightarrow> int \<Rightarrow> int \<Rightarrow> config" where
  "cfg lam it eps meth nn dx dy dz =
     \<lparr>Input = 0, Output = 100, lambda = lam, iter = it, epsil = eps, methodTV = meth,
      nonneg = nn, printM = 0, dimX = dx, dimY = dy, dimZ = dz\<rparr>"

text \<open>
  For the store of IEEE 754 values: a finite value that binary32 holds (rounding leaves
  it as it is); the real number that a finite value stands for; the Euclidean norm across
  the components of the duals at one grid position; a value that is not below zero (a
  number that is at least 0, plus infinity, or a NaN, for which \<^verbatim>\<open>v < 0.0f\<close> is false);
  and a store whose Output samples are all of that kind.
\<close>

fun finite_f32 :: "fval \<Rightarrow> bool" where
  "finite_f32 (Fin x) = (f32 x = Fin x)"
| "finite_f32 PInf = False"
| "finite_f32 NInf = False"
| "finite_f32 NaN = False"

fun val :: "fval \<Rightarrow> real" where
  "val (Fin x) = x"
| "val PInf = 0"
| "val NInf = 0"
| "val NaN = 0"

definition norm2D_f :: "fheap \<Rightarrow> addr \<Rightarrow> addr \<Rightarrow> int \<Rightarrow> real" where
  "norm2D_f h pa pb index = sqrt ((val (h (pa + index)))\<^sup>2 + (val (h (pb + index)))\<^sup>2)"

definition norm3D_f :: "fheap \<Rightarrow> addr \<Rightarrow> addr \<Rightarrow> addr \<Rightarrow> int \<Rightarrow> real" where
  "norm3D_f h pa pb pc index =
     sqrt ((val (h (pa + index)))\<^sup>2 + (val (h (pb + index)))\<^sup>2 + (val (h (pc + index)))\<^sup>2)"







section \<open>Rules for counting loops\<close>

lemma for_loop_inv:
  assumes "I lo s"
    and "\<And>i s. lo \<le> i \<Longrightarrow> i < n \<Longrightarrow> I i s \<Longrightarrow> I (i + 1) (body i s)"
    and "lo \<le> n"
  shows "I n (for_loop lo n body s)"
  using assms
proof (induction lo n body s rule: for_loop.induct)
  case (1 i n body s)
  show ?case
  proof (cases "i < n")
    case True
    have "I n (for_loop (i + 1) n body (body i s))"
    proof (rule "1.IH"[OF True])
      show "I (i + 1) (body i s)" using "1.prems" True by simp
      show "\<And>j s. i + 1 \<le> j \<Longrightarrow> j < n \<Longrightarrow> I j s \<Longrightarrow> I (j + 1) (body j s)"
        using "1.prems"(2) by simp
      show "i + 1 \<le> n" using True by simp
    qed
    then show ?thesis using True by (simp add: for_loop.simps[of i])
  next
    case False
    with "1.prems" have "i = n" by simp
    then show ?thesis using "1.prems"(1) by (simp add: for_loop.simps[of n])
  qed
qed

lemma for_loop_rule:
  assumes "P s"
    and "\<And>i s. lo \<le> i \<Longrightarrow> i < n \<Longrightarrow> P s \<Longrightarrow> P (body i s)"
  shows "P (for_loop lo n body s)"
  using assms
proof (induction lo n body s rule: for_loop.induct)
  case (1 i n body s)
  show ?case
  proof (cases "i < n")
    case True
    have "P (for_loop (i + 1) n body (body i s))"
    proof (rule "1.IH"[OF True])
      show "P (body i s)" using "1.prems" True by simp
      show "\<And>j s. i + 1 \<le> j \<Longrightarrow> j < n \<Longrightarrow> P s \<Longrightarrow> P (body j s)"
        using "1.prems"(2) by simp
    qed
    then show ?thesis using True by (simp add: for_loop.simps[of i])
  next
    case False
    then show ?thesis using "1.prems"(1) by (simp add: for_loop.simps[of i])
  qed
qed

lemma for_loop_empty: "n \<le> lo \<Longrightarrow> for_loop lo n body s = s"
  by (simp add: for_loop.simps)

section \<open>Where the operators write\<close>

lemma idx2D_bounds:
  fixes i j X Y :: int
  assumes "0 \<le> i" "i < X" "0 \<le> j" "j < Y"
  shows "0 \<le> j * X + i" and "j * X + i < X * Y"
proof -
  have X: "0 < X" using assms by simp
  have "0 \<le> j * X" using assms X by simp
  then show "0 \<le> j * X + i" using assms by simp
  have "j * X + i < j * X + X" using assms by simp
  also have "\<dots> = (j + 1) * X" by (simp add: algebra_simps)
  also have "\<dots> \<le> Y * X" using assms X by (intro mult_right_mono) simp_all
  finally show "j * X + i < X * Y" by (simp add: mult.commute)
qed

lemma idx3D_bounds:
  fixes i j k X Y Z :: int
  assumes "0 \<le> i" "i < X" "0 \<le> j" "j < Y" "0 \<le> k" "k < Z"
  shows "0 \<le> (X * Y) * k + j * X + i" and "(X * Y) * k + j * X + i < X * Y * Z"
proof -
  have XY: "0 < X * Y" using assms by simp
  have a: "0 \<le> j * X + i" "j * X + i < X * Y" using idx2D_bounds[OF assms(1-4)] by simp_all
  have "0 \<le> (X * Y) * k" using XY assms by simp
  then show "0 \<le> (X * Y) * k + j * X + i" using a by simp
  have "(X * Y) * k + j * X + i < (X * Y) * k + X * Y" using a by simp
  also have "\<dots> = (X * Y) * (k + 1)" by (simp add: algebra_simps)
  also have "\<dots> \<le> (X * Y) * Z" using assms XY by (intro mult_left_mono) simp_all
  finally show "(X * Y) * k + j * X + i < X * Y * Z" by simp
qed

lemma in_region2D:
  "0 \<le> i \<Longrightarrow> i < X \<Longrightarrow> 0 \<le> j \<Longrightarrow> j < Y \<Longrightarrow> p + (j * X + i) \<in> region p (X * Y)"
  using idx2D_bounds[of i X j Y] by (simp add: region_def)

lemma in_region3D:
  "0 \<le> i \<Longrightarrow> i < X \<Longrightarrow> 0 \<le> j \<Longrightarrow> j < Y \<Longrightarrow> 0 \<le> k \<Longrightarrow> k < Z \<Longrightarrow>
     p + ((X * Y) * k + j * X + i) \<in> region p (X * Y * Z)"
  using idx3D_bounds[of i X j Y k Z] by (simp add: region_def)


lemma for_loop_frame:
  fixes h :: heap
  assumes "\<And>i h. lo \<le> i \<Longrightarrow> i < n \<Longrightarrow> body i h a = h a"
  shows "for_loop lo n body h a = h a"
  by (rule for_loop_rule[where P = "\<lambda>h'. h' a = h a"]) (simp_all add: assms)

lemma outside2D:
  "a \<notin> region p (X * Y) \<Longrightarrow> 0 \<le> i \<Longrightarrow> i < X \<Longrightarrow> 0 \<le> j \<Longrightarrow> j < Y \<Longrightarrow>
     a \<noteq> p + (j * X + i)"
  using in_region2D[of i X j Y p] by auto

lemma outside3D:
  "a \<notin> region p (X * Y * Z) \<Longrightarrow> 0 \<le> i \<Longrightarrow> i < X \<Longrightarrow> 0 \<le> j \<Longrightarrow> j < Y \<Longrightarrow>
     0 \<le> k \<Longrightarrow> k < Z \<Longrightarrow> a \<noteq> p + ((X * Y) * k + j * X + i)"
  using in_region3D[of i X j Y k Z p] by auto

lemma outside1D: "a \<notin> region p n \<Longrightarrow> 0 \<le> j \<Longrightarrow> j < n \<Longrightarrow> a \<noteq> p + j"
  by (auto simp: region_def)

lemma Obj_func2D_frame:
  "a \<notin> region D (X * Y) \<Longrightarrow> Obj_func2D A D ra rb lam X Y h a = h a"
  unfolding Obj_func2D_def Let_def
  by (intro for_loop_frame) (simp add: outside2D)

lemma Grad_func2D_frame:
  "a \<notin> region pa (X * Y) \<Longrightarrow> a \<notin> region pb (X * Y) \<Longrightarrow>
     Grad_func2D pa pb D ra rb lam X Y h a = h a"
  unfolding Grad_func2D_def Let_def
  by (intro for_loop_frame) (simp add: outside2D)

lemma Proj_func2D_frame:
  "a \<notin> region pa (X * Y) \<Longrightarrow> a \<notin> region pb (X * Y) \<Longrightarrow>
     Proj_func2D pa pb m X Y h a = h a"
  unfolding Proj_func2D_def Let_def
  by (cases "m = 0"; simp; intro for_loop_frame) (simp_all add: outside2D)

lemma Rupd_func2D_frame:
  "a \<notin> region ra (X * Y) \<Longrightarrow> a \<notin> region rb (X * Y) \<Longrightarrow>
     Rupd_func2D pa pa' pb pb' ra rb t t' X Y h a = h a"
  unfolding Rupd_func2D_def Let_def
  by (intro for_loop_frame) (simp add: outside2D)

lemma Obj_func3D_frame:
  "a \<notin> region D (X * Y * Z) \<Longrightarrow> Obj_func3D A D ra rb rc lam X Y Z h a = h a"
  unfolding Obj_func3D_def Let_def
  by (intro for_loop_frame) (simp add: outside3D)

lemma Grad_func3D_frame:
  "a \<notin> region pa (X * Y * Z) \<Longrightarrow> a \<notin> region pb (X * Y * Z) \<Longrightarrow> a \<notin> region pc (X * Y * Z) \<Longrightarrow>
     Grad_func3D pa pb pc D ra rb rc lam X Y Z h a = h a"
  unfolding Grad_func3D_def Let_def
  by (intro for_loop_frame) (simp add: outside3D)

lemma Proj_func3D_frame:
  "a \<notin> region pa (X * Y * Z) \<Longrightarrow> a \<notin> region pb (X * Y * Z) \<Longrightarrow> a \<notin> region pc (X * Y * Z) \<Longrightarrow>
     Proj_func3D pa pb pc m X Y Z h a = h a"
  unfolding Proj_func3D_def Let_def
  by (cases "m = 0"; simp; intro for_loop_frame) (simp_all add: outside3D)

lemma Rupd_func3D_frame:
  "a \<notin> region ra (X * Y * Z) \<Longrightarrow> a \<notin> region rb (X * Y * Z) \<Longrightarrow> a \<notin> region rc (X * Y * Z) \<Longrightarrow>
     Rupd_func3D pa pa' pb pb' pc pc' ra rb rc t t' X Y Z h a = h a"
  unfolding Rupd_func3D_def Let_def
  by (intro for_loop_frame) (simp add: outside3D)

lemma copyIm_frame:
  "a \<notin> region U (X * Y * Z) \<Longrightarrow> copyIm A U X Y Z h a = h a"
  unfolding copyIm_def
  by (intro for_loop_frame) (simp add: outside1D)

lemma clamp_frame:
  "a \<notin> region (Output c) n \<Longrightarrow> clamp c n h a = h a"
  unfolding clamp_def
  by (cases "nonneg c = 1"; simp; intro for_loop_frame) (simp add: outside1D)

section \<open>The outcome of a call, by branch\<close>


lemma final_2D: "dimZ c \<le> 1 \<Longrightarrow> final (TV_FGP_CPU c b h) = snd (loop2D c b 0 (entry h))"
  by (simp add: TV_FGP_CPU_def case_prod_beta)

lemma final_3D: "1 < dimZ c \<Longrightarrow> final (TV_FGP_CPU c b h) = snd (loop3D c b 0 (entry h))"
  by (simp add: TV_FGP_CPU_def case_prod_beta)

lemma ll_end_2D: "dimZ c \<le> 1 \<Longrightarrow> ll_end (TV_FGP_CPU c b h) = fst (loop2D c b 0 (entry h))"
  by (simp add: TV_FGP_CPU_def case_prod_beta)

lemma ll_end_3D: "1 < dimZ c \<Longrightarrow> ll_end (TV_FGP_CPU c b h) = fst (loop3D c b 0 (entry h))"
  by (simp add: TV_FGP_CPU_def case_prod_beta)

lemma ret_final: "ret (TV_FGP_CPU c b h) = mem (final (TV_FGP_CPU c b h)) (Output c)"
  by (simp add: TV_FGP_CPU_def case_prod_beta)

section \<open>Where a call writes\<close>

lemma body2D_frame:
  assumes "a \<notin> region (Output c) (dimX c * dimY c)"
    "a \<notin> region (P1 b) (dimX c * dimY c)" "a \<notin> region (P2 b) (dimX c * dimY c)"
    "a \<notin> region (R1 b) (dimX c * dimY c)" "a \<notin> region (R2 b) (dimX c * dimY c)"
  shows "mem (body2D c b s) a = mem s a"
  using assms
  by (simp add: body2D_def Let_def Rupd_func2D_frame Proj_func2D_frame Grad_func2D_frame
      clamp_frame Obj_func2D_frame)

lemma tail2D_frame:
  assumes "a \<notin> region (Output_prev b) (dimX c * dimY c)"
    "a \<notin> region (P1_prev b) (dimX c * dimY c)" "a \<notin> region (P2_prev b) (dimX c * dimY c)"
  shows "mem (tail2D c b s) a = mem s a"
  using assms copyIm_frame[of a _ "dimX c" "dimY c" 1]
  by (simp add: tail2D_def Let_def)

lemma body3D_frame:
  assumes "a \<notin> region (Output c) (dimX c * dimY c * dimZ c)"
    "a \<notin> region (P1 b) (dimX c * dimY c * dimZ c)" "a \<notin> region (P2 b) (dimX c * dimY c * dimZ c)"
    "a \<notin> region (P3 b) (dimX c * dimY c * dimZ c)"
    "a \<notin> region (R1 b) (dimX c * dimY c * dimZ c)" "a \<notin> region (R2 b) (dimX c * dimY c * dimZ c)"
    "a \<notin> region (R3 b) (dimX c * dimY c * dimZ c)"
  shows "mem (body3D c b s) a = mem s a"
  using assms
  by (simp add: body3D_def Let_def Rupd_func3D_frame Proj_func3D_frame Grad_func3D_frame
      clamp_frame Obj_func3D_frame)

lemma tail3D_frame:
  assumes "a \<notin> region (Output_prev b) (dimX c * dimY c * dimZ c)"
    "a \<notin> region (P1_prev b) (dimX c * dimY c * dimZ c)" "a \<notin> region (P2_prev b) (dimX c * dimY c * dimZ c)"
    "a \<notin> region (P3_prev b) (dimX c * dimY c * dimZ c)"
  shows "mem (tail3D c b s) a = mem s a"
  using assms
  by (simp add: tail3D_def Let_def copyIm_frame)

lemma loop2D_frame:
  "dimZ c \<le> 1 \<Longrightarrow> a \<notin> footprint c b \<Longrightarrow> mem (snd (loop2D c b ll s)) a = mem s a"
proof (induction c b ll s rule: loop2D.induct)
  case (1 c b ll s)
  from "1.prems" have bd: "mem (body2D c b s) a = mem s a"
    by (intro body2D_frame) (simp_all add: footprint_def DimTotal_def allocated_def)
  from "1.prems" have tl: "\<And>s'. mem (tail2D c b s') a = mem s' a"
    by (intro tail2D_frame) (simp_all add: footprint_def DimTotal_def allocated_def)
  show ?case
  proof (cases "ll < iter c")
    case True
    show ?thesis
    proof (cases "4 < count (body2D c b s)")
      case True
      with \<open>ll < iter c\<close> show ?thesis by (simp add: loop2D.simps[of c b ll] bd)
    next
      case False
      with \<open>ll < iter c\<close> "1.IH"[OF \<open>ll < iter c\<close> refl False "1.prems"] show ?thesis
        by (simp add: loop2D.simps[of c b ll] bd tl)
    qed
  next
    case False
    then show ?thesis by (simp add: loop2D.simps[of c b ll])
  qed
qed

lemma loop3D_frame:
  "1 < dimZ c \<Longrightarrow> a \<notin> footprint c b \<Longrightarrow> mem (snd (loop3D c b ll s)) a = mem s a"
proof (induction c b ll s rule: loop3D.induct)
  case (1 c b ll s)
  from "1.prems" have bd: "mem (body3D c b s) a = mem s a"
    by (intro body3D_frame) (simp_all add: footprint_def DimTotal_def allocated_def)
  from "1.prems" have tl: "\<And>s'. mem (tail3D c b s') a = mem s' a"
    by (intro tail3D_frame) (simp_all add: footprint_def DimTotal_def allocated_def)
  show ?case
  proof (cases "ll < iter c")
    case True
    show ?thesis
    proof (cases "4 < count (body3D c b s)")
      case True
      with \<open>ll < iter c\<close> show ?thesis by (simp add: loop3D.simps[of c b ll] bd)
    next
      case False
      with \<open>ll < iter c\<close> "1.IH"[OF \<open>ll < iter c\<close> refl False "1.prems"] show ?thesis
        by (simp add: loop3D.simps[of c b ll] bd tl)
    qed
  next
    case False
    then show ?thesis by (simp add: loop3D.simps[of c b ll])
  qed
qed

lemma TV_FGP_CPU_frame:
  assumes "a \<notin> footprint c b"
  shows "mem (final (TV_FGP_CPU c b h)) a = h a"
proof (cases "dimZ c \<le> 1")
  case True
  with loop2D_frame[OF True assms, of 0 "entry h"] show ?thesis
    by (simp add: final_2D entry_def)
next
  case False
  then have z: "1 < dimZ c" by simp
  with loop3D_frame[OF z assms, of 0 "entry h"] show ?thesis
    by (simp add: final_3D entry_def)
qed

lemma sep_outside:
  assumes "sep n p q" "0 \<le> j" "j < n"
  shows "p + j \<notin> region q n"
  using assms by (auto simp: sep_def region_def)

section \<open>Nested loops over grid positions\<close>




section \<open>The projection operator\<close>

lemma sep_neq:
  "sep n p q \<Longrightarrow> 0 \<le> k \<Longrightarrow> k < n \<Longrightarrow> 0 \<le> k' \<Longrightarrow> k' < n \<Longrightarrow> p + k \<noteq> q + k'"
  by (auto simp: sep_def)

lemma sep_neq2D:
  assumes "sep (X * Y) p q" "0 \<le> i" "i < X" "0 \<le> j" "j < Y" "0 \<le> i'" "i' < X" "0 \<le> j'" "j' < Y"
  shows "p + (j * X + i) \<noteq> q + (j' * X + i')" "q + (j' * X + i') \<noteq> p + (j * X + i)"
  using sep_neq[OF assms(1), of "j * X + i" "j' * X + i'"]
    idx2D_bounds[OF assms(2-5)] idx2D_bounds[OF assms(6-9)] by auto




lemma nested2_preserve:
  assumes "U s"
    and "\<And>i j s. 0 \<le> i \<Longrightarrow> i < X \<Longrightarrow> 0 \<le> j \<Longrightarrow> j < Y \<Longrightarrow> U s \<Longrightarrow> U (step i j s)"
  shows "U (for_loop 0 X (\<lambda>i. for_loop 0 Y (\<lambda>j. step i j)) s)"
proof (rule for_loop_rule[where P = U, OF assms(1)])
  fix i s assume i: "0 \<le> i" "i < X" and u: "U s"
  show "U (for_loop 0 Y (step i) s)"
    by (rule for_loop_rule[where P = U, OF u]) (simp add: assms(2) i)
qed


lemma aniso_bound: "\<bar>a / (if \<bar>a\<bar> < 1 then 1 else \<bar>a\<bar>)\<bar> \<le> (1::real)"
  by simp

lemma aniso_inside: "\<bar>a\<bar> \<le> (1::real) \<Longrightarrow> a / (if \<bar>a\<bar> < 1 then 1 else \<bar>a\<bar>) = a"
  by auto


lemma Proj_func2D_iso_inside:
  assumes s: "sep (X * Y) pa pb" and rng: "0 \<le> i0" "i0 < X" "0 \<le> j0" "j0 < Y"
    and ins: "(h (pa + (j0 * X + i0)))\<^sup>2 + (h (pb + (j0 * X + i0)))\<^sup>2 \<le> 1"
  shows "Proj_func2D pa pb 0 X Y h (pa + (j0 * X + i0)) = h (pa + (j0 * X + i0)) \<and>
         Proj_func2D pa pb 0 X Y h (pb + (j0 * X + i0)) = h (pb + (j0 * X + i0))"
  unfolding Proj_func2D_def if_P[OF refl]
proof (rule nested2_preserve[where U = "\<lambda>h'. h' (pa + (j0 * X + i0)) = h (pa + (j0 * X + i0)) \<and>
         h' (pb + (j0 * X + i0)) = h (pb + (j0 * X + i0))"], goal_cases)
  case 1
  show ?case by simp
next
  case (2 i j h')
  show ?case
  proof (cases "j0 * X + i0 = j * X + i")
    case True
    with 2(5) ins show ?thesis by (simp add: Let_def)
  next
    case False
    with 2(5) sep_neq2D[OF s 2(1-4) rng] sep_neq2D[OF s rng 2(1-4)] show ?thesis
      by (simp add: Let_def)
  qed
qed


lemma Proj_func2D_aniso_inside:
  assumes s: "sep (X * Y) pa pb" and rng: "0 \<le> i0" "i0 < X" "0 \<le> j0" "j0 < Y" and m: "m \<noteq> 0"
  shows "(\<bar>h (pa + (j0 * X + i0))\<bar> \<le> 1 \<longrightarrow>
            Proj_func2D pa pb m X Y h (pa + (j0 * X + i0)) = h (pa + (j0 * X + i0))) \<and>
         (\<bar>h (pb + (j0 * X + i0))\<bar> \<le> 1 \<longrightarrow>
            Proj_func2D pa pb m X Y h (pb + (j0 * X + i0)) = h (pb + (j0 * X + i0)))"
  unfolding Proj_func2D_def if_not_P[OF m]
proof (rule nested2_preserve[where U = "\<lambda>h'. (\<bar>h (pa + (j0 * X + i0))\<bar> \<le> 1 \<longrightarrow>
            h' (pa + (j0 * X + i0)) = h (pa + (j0 * X + i0))) \<and>
         (\<bar>h (pb + (j0 * X + i0))\<bar> \<le> 1 \<longrightarrow>
            h' (pb + (j0 * X + i0)) = h (pb + (j0 * X + i0)))"], goal_cases)
  case 1
  show ?case by simp
next
  case (2 i j h')
  show ?case
  proof (cases "j0 * X + i0 = j * X + i")
    case True
    have ne: "pa + (j * X + i) \<noteq> pb + (j * X + i)" using sep_neq2D(1)[OF s 2(1-4) 2(1-4)] .
    with True 2(5) show ?thesis by (auto simp: Let_def)
  next
    case False
    with 2(5) sep_neq2D[OF s 2(1-4) rng] sep_neq2D[OF s rng 2(1-4)] show ?thesis
      by (simp add: Let_def)
  qed
qed








section \<open>The clamp\<close>

lemma clamp_nonneg:
  assumes "nonneg c = 1" "0 \<le> j" "j < n"
  shows "0 \<le> clamp c n h (Output c + j)"
proof -
  let ?I = "\<lambda>i (h' :: heap). \<forall>k. 0 \<le> k \<and> k < i \<longrightarrow> 0 \<le> h' (Output c + k)"
  have "?I n (for_loop 0 n (\<lambda>j h. if h (Output c + j) < 0 then h(Output c + j := 0) else h) h)"
  proof (rule for_loop_inv[where I = ?I])
    show "?I 0 h" by simp
    show "0 \<le> n" using assms by simp
  next
    fix i :: int and s :: heap
    assume "0 \<le> i" "i < n" and I: "?I i s"
    show "?I (i + 1) (if s (Output c + i) < 0 then s(Output c + i := 0) else s)"
    proof (intro allI impI)
      fix k assume k: "0 \<le> k \<and> k < i + 1"
      show "0 \<le> (if s (Output c + i) < 0 then s(Output c + i := 0) else s) (Output c + k)"
      proof (cases "k = i")
        case True
        then show ?thesis by simp
      next
        case False
        with k have "0 \<le> k \<and> k < i" by simp
        with I have "0 \<le> s (Output c + k)" by blast
        with False show ?thesis by simp
      qed
    qed
  qed
  with assms show ?thesis by (simp add: clamp_def)
qed

lemma body2D_nonneg:
  assumes "nonneg c = 1" "dimZ c \<le> 1"
    and "\<forall>p \<in> set (allocated c b). sep (DimTotal c) (Output c) p"
    and "0 \<le> j" "j < DimTotal c"
  shows "0 \<le> mem (body2D c b s) (Output c + j)"
proof -
  let ?n = "dimX c * dimY c"
  have n: "DimTotal c = ?n" using assms(2) by (simp add: DimTotal_def)
  have out: "Output c + j \<notin> region (P1 b) ?n" "Output c + j \<notin> region (P2 b) ?n"
       "Output c + j \<notin> region (R1 b) ?n" "Output c + j \<notin> region (R2 b) ?n"
    using assms n by (simp_all add: allocated_def sep_outside)
  have "0 \<le> clamp c ?n (Obj_func2D (Input c) (Output c) (R1 b) (R2 b) (lambda c) (dimX c) (dimY c) (mem s)) (Output c + j)"
    using assms n by (intro clamp_nonneg) simp_all
  then show ?thesis
    by (simp add: body2D_def Let_def Rupd_func2D_frame Proj_func2D_frame Grad_func2D_frame out)
qed

lemma tail2D_Output:
  assumes "dimZ c \<le> 1"
    and "\<forall>p \<in> set (allocated c b). sep (DimTotal c) (Output c) p"
    and "0 \<le> j" "j < DimTotal c"
  shows "mem (tail2D c b s) (Output c + j) = mem s (Output c + j)"
proof -
  let ?n = "dimX c * dimY c"
  have n: "DimTotal c = ?n" using assms(1) by (simp add: DimTotal_def)
  show ?thesis using assms n by (intro tail2D_frame) (simp_all add: allocated_def sep_outside)
qed

lemma body3D_nonneg:
  assumes "nonneg c = 1" "1 < dimZ c"
    and "\<forall>p \<in> set (allocated c b). sep (DimTotal c) (Output c) p"
    and "0 \<le> j" "j < DimTotal c"
  shows "0 \<le> mem (body3D c b s) (Output c + j)"
proof -
  let ?n = "dimX c * dimY c * dimZ c"
  have n: "DimTotal c = ?n" using assms(2) by (simp add: DimTotal_def)
  have out: "Output c + j \<notin> region (P1 b) ?n" "Output c + j \<notin> region (P2 b) ?n"
       "Output c + j \<notin> region (P3 b) ?n" "Output c + j \<notin> region (R3 b) ?n"
       "Output c + j \<notin> region (R1 b) ?n" "Output c + j \<notin> region (R2 b) ?n"
    using assms n by (simp_all add: allocated_def sep_outside)
  have "0 \<le> clamp c ?n (Obj_func3D (Input c) (Output c) (R1 b) (R2 b) (R3 b) (lambda c) (dimX c) (dimY c) (dimZ c) (mem s)) (Output c + j)"
    using assms n by (intro clamp_nonneg) simp_all
  then show ?thesis
    by (simp add: body3D_def Let_def Rupd_func3D_frame Proj_func3D_frame Grad_func3D_frame out)
qed

lemma tail3D_Output:
  assumes "1 < dimZ c"
    and "\<forall>p \<in> set (allocated c b). sep (DimTotal c) (Output c) p"
    and "0 \<le> j" "j < DimTotal c"
  shows "mem (tail3D c b s) (Output c + j) = mem s (Output c + j)"
proof -
  let ?n = "dimX c * dimY c * dimZ c"
  have n: "DimTotal c = ?n" using assms(1) by (simp add: DimTotal_def)
  show ?thesis using assms n by (intro tail3D_frame) (simp_all add: allocated_def sep_outside)
qed

lemma loop2D_nonneg:
  "nonneg c = 1 \<Longrightarrow> dimZ c \<le> 1 \<Longrightarrow> \<forall>p \<in> set (allocated c b). sep (DimTotal c) (Output c) p \<Longrightarrow>
   ll < iter c \<or> nonneg_out c (mem s) \<Longrightarrow> nonneg_out c (mem (snd (loop2D c b ll s)))"
proof (induction c b ll s rule: loop2D.induct)
  case (1 c b ll s)
  have bd: "nonneg_out c (mem (body2D c b s))"
    using "1.prems"(1-3) by (simp add: nonneg_out_def body2D_nonneg)
  then have tl: "nonneg_out c (mem (tail2D c b (body2D c b s)))"
    using "1.prems"(1-3) by (simp add: nonneg_out_def tail2D_Output)
  show ?case
  proof (cases "ll < iter c")
    case True
    show ?thesis
    proof (cases "4 < count (body2D c b s)")
      case True
      with \<open>ll < iter c\<close> bd show ?thesis by (simp add: loop2D.simps[of c b ll])
    next
      case False
      with \<open>ll < iter c\<close> "1.IH"[OF \<open>ll < iter c\<close> refl False "1.prems"(1-3)] tl show ?thesis
        by (simp add: loop2D.simps[of c b ll])
    qed
  next
    case False
    with "1.prems"(4) show ?thesis by (simp add: loop2D.simps[of c b ll])
  qed
qed

lemma loop3D_nonneg:
  "nonneg c = 1 \<Longrightarrow> 1 < dimZ c \<Longrightarrow> \<forall>p \<in> set (allocated c b). sep (DimTotal c) (Output c) p \<Longrightarrow>
   ll < iter c \<or> nonneg_out c (mem s) \<Longrightarrow> nonneg_out c (mem (snd (loop3D c b ll s)))"
proof (induction c b ll s rule: loop3D.induct)
  case (1 c b ll s)
  have bd: "nonneg_out c (mem (body3D c b s))"
    using "1.prems"(1-3) by (simp add: nonneg_out_def body3D_nonneg)
  then have tl: "nonneg_out c (mem (tail3D c b (body3D c b s)))"
    using "1.prems"(1-3) by (simp add: nonneg_out_def tail3D_Output)
  show ?case
  proof (cases "ll < iter c")
    case True
    show ?thesis
    proof (cases "4 < count (body3D c b s)")
      case True
      with \<open>ll < iter c\<close> bd show ?thesis by (simp add: loop3D.simps[of c b ll])
    next
      case False
      with \<open>ll < iter c\<close> "1.IH"[OF \<open>ll < iter c\<close> refl False "1.prems"(1-3)] tl show ?thesis
        by (simp add: loop3D.simps[of c b ll])
    qed
  next
    case False
    with "1.prems"(4) show ?thesis by (simp add: loop3D.simps[of c b ll])
  qed
qed

section \<open>Where the operators on IEEE 754 values write\<close>

lemma for_loop_frame_f:
  fixes h :: fheap
  assumes "\<And>i h. lo \<le> i \<Longrightarrow> i < n \<Longrightarrow> body i h a = h a"
  shows "for_loop lo n body h a = h a"
  by (rule for_loop_rule[where P = "\<lambda>h'. h' a = h a"]) (simp_all add: assms)

lemma Obj_func2D_f_frame:
  "a \<notin> region D (X * Y) \<Longrightarrow> Obj_func2D_f A D ra rb lam X Y h a = h a"
  unfolding Obj_func2D_f_def Let_def
  by (intro for_loop_frame_f) (simp add: outside2D)




lemma Obj_func3D_f_frame:
  "a \<notin> region D (X * Y * Z) \<Longrightarrow> Obj_func3D_f A D ra rb rc lam X Y Z h a = h a"
  unfolding Obj_func3D_f_def Let_def
  by (intro for_loop_frame_f) (simp add: outside3D)





lemma clamp_f_frame:
  "a \<notin> region (Output c) n \<Longrightarrow> clamp_f c n h a = h a"
  unfolding clamp_f_def
  by (cases "nonneg c = 1"; simp; intro for_loop_frame_f) (simp add: outside1D)



section \<open>The clamp on IEEE 754 values\<close>


















section \<open>The stopping rule\<close>

lemma loop_run_unfold:
  "loop_run c b ll s =
     (if ll < iter c then
        (if count (loop_body c b s) > 4 then (ll, loop_body c b s)
         else loop_run c b (ll + 1) (loop_tail c b (loop_body c b s)))
      else (ll, s))"
  by (simp add: loop_run_def loop_body_def loop_tail_def loop2D.simps[of c b ll] loop3D.simps[of c b ll] Let_def)

lemma final_run: "final (TV_FGP_CPU c b h) = snd (loop_run c b 0 (entry h))"
  by (simp add: TV_FGP_CPU_def loop_run_def case_prod_beta)

lemma ll_end_run: "ll_end (TV_FGP_CPU c b h) = fst (loop_run c b 0 (entry h))"
  by (simp add: TV_FGP_CPU_def loop_run_def case_prod_beta)

lemma count_body:
  "count (loop_body c b s) = count s + (if flt (residual c b s) (epsil c) then 1 else 0)"
  by (simp add: residual_def loop_body_def body2D_def body3D_def DimTotal_def Let_def)

lemma count_tail: "count (loop_tail c b s) = count s"
  by (simp add: loop_tail_def tail2D_def tail3D_def Let_def)

lemma nruns_body: "nruns (loop_body c b s) = nruns s + 1"
  by (simp add: loop_body_def body2D_def body3D_def Let_def)

lemma nruns_tail: "nruns (loop_tail c b s) = nruns s"
  by (simp add: loop_tail_def tail2D_def tail3D_def Let_def)

lemma count_head_state: "count (head_state c b h n) = dips c b h n"
  by (induction n) (simp_all add: entry_def count_tail count_body)

lemma nruns_head_state: "nruns (head_state c b h n) = int n"
  by (induction n) (simp_all add: entry_def nruns_tail nruns_body)

lemma dips_mono: "dips c b h n \<le> dips c b h (Suc n)"
  by simp

lemma run_prefix:
  "int n \<le> iter c \<Longrightarrow> dips c b h n \<le> 4 \<Longrightarrow>
     loop_run c b 0 (entry h) = loop_run c b (int n) (head_state c b h n)"
proof (induction n)
  case 0
  show ?case by simp
next
  case (Suc n)
  have lt: "int n < iter c" using Suc.prems by simp
  have d: "dips c b h n \<le> 4" using Suc.prems(2) dips_mono[of c b h n] by linarith
  have cnt: "count (loop_body c b (head_state c b h n)) = dips c b h (Suc n)"
    by (simp add: count_body count_head_state)
  have "loop_run c b 0 (entry h) = loop_run c b (int n) (head_state c b h n)"
    using Suc.IH lt d by simp
  also have "\<dots> = loop_run c b (int n + 1) (loop_tail c b (loop_body c b (head_state c b h n)))"
    using lt cnt Suc.prems(2) by (subst loop_run_unfold) simp
  finally show ?case by (simp add: add.commute)
qed

lemma stops_at_fifth_dip:
  assumes "int n < iter c" "dips c b h n \<le> 4" "4 < dips c b h (Suc n)"
  shows "loop_run c b 0 (entry h) = (int n, loop_body c b (head_state c b h n))"
proof -
  have cnt: "count (loop_body c b (head_state c b h n)) = dips c b h (Suc n)"
    by (simp add: count_body count_head_state)
  have "loop_run c b 0 (entry h) = loop_run c b (int n) (head_state c b h n)"
    using assms by (intro run_prefix) simp_all
  also have "\<dots> = (int n, loop_body c b (head_state c b h n))"
    using assms cnt by (subst loop_run_unfold) simp
  finally show ?thesis .
qed

lemma runs_to_cap:
  assumes "dips c b h (nat (iter c)) \<le> 4"
  shows "loop_run c b 0 (entry h) = (max 0 (iter c), head_state c b h (nat (iter c)))"
proof (cases "0 < iter c")
  case True
  have "loop_run c b 0 (entry h) = loop_run c b (int (nat (iter c))) (head_state c b h (nat (iter c)))"
    using assms True by (intro run_prefix) simp_all
  also have "\<dots> = (iter c, head_state c b h (nat (iter c)))"
    using True by (subst loop_run_unfold) simp
  finally show ?thesis using True by simp
next
  case False
  then show ?thesis by (subst loop_run_unfold) simp
qed

lemma resid_sums_nonneg:
  "0 \<le> fst (resid_sums out prev n h) \<and> 0 \<le> snd (resid_sums out prev n h)"
  unfolding resid_sums_def
  by (rule for_loop_rule[where P = "\<lambda>p. 0 \<le> fst p \<and> 0 \<le> snd p"]) (auto simp: case_prod_beta)

lemma rel_resid_not_below_zero: "\<not> flt (rel_resid out prev n h) 0"
proof -
  obtain re re1 where p: "resid_sums out prev n h = (re, re1)" by (cases "resid_sums out prev n h")
  with resid_sums_nonneg[of out prev n h] have "0 \<le> re" "0 \<le> re1" by simp_all
  then have "0 \<le> sqrt re / sqrt re1" by simp
  moreover have "\<not> sqrt re < 0" using \<open>0 \<le> re\<close> by simp
  ultimately show ?thesis by (simp add: rel_resid_def p fdiv_def)
qed

lemma rel_resid_zero_denominator:
  assumes "sqrt (snd (resid_sums out prev n h)) = 0"
  shows "\<not> flt (rel_resid out prev n h) e"
proof -
  obtain re re1 where p: "resid_sums out prev n h = (re, re1)" by (cases "resid_sums out prev n h")
  with resid_sums_nonneg[of out prev n h] have "0 \<le> re" by simp
  then have "0 \<le> sqrt re" by simp
  with assms show ?thesis by (auto simp: rel_resid_def p fdiv_def)
qed

lemma nruns_bound:
  "nruns (snd (loop_run c b ll s)) \<le> nruns s + max 0 (iter c - ll)"
proof (induction "nat (iter c - ll)" arbitrary: ll s)
  case 0
  then show ?case by (subst loop_run_unfold) simp
next
  case (Suc m)
  then have lt: "ll < iter c" and m: "m = nat (iter c - (ll + 1))" by simp_all
  have "nruns (snd (loop_run c b (ll + 1) (loop_tail c b (loop_body c b s))))
          \<le> nruns (loop_tail c b (loop_body c b s)) + max 0 (iter c - (ll + 1))"
    by (rule Suc.hyps(1)[OF m])
  then show ?case using lt
    by (subst loop_run_unfold) (simp add: nruns_body nruns_tail)
qed

lemma dips_eps0: "epsil c = 0 \<Longrightarrow> dips c b h n = 0"
  by (induction n) (simp_all add: residual_def rel_resid_not_below_zero)

lemma nruns_mono: "nruns s \<le> nruns (snd (loop_run c b ll s))"
proof (induction "nat (iter c - ll)" arbitrary: ll s)
  case 0
  then show ?case by (subst loop_run_unfold) simp
next
  case (Suc m)
  then have lt: "ll < iter c" and m: "m = nat (iter c - (ll + 1))" by simp_all
  have "nruns (loop_tail c b (loop_body c b s))
          \<le> nruns (snd (loop_run c b (ll + 1) (loop_tail c b (loop_body c b s))))"
    by (rule Suc.hyps(1)[OF m])
  then show ?case using lt
    by (subst loop_run_unfold) (simp add: nruns_body nruns_tail)
qed

lemmas run2D_defs = TV_FGP_CPU_def entry_def cfg_def blk_def Let_def loop2D.simps
  loop_body_def loop_tail_def body2D_def tail2D_def
  Obj_func2D_def Grad_func2D_def Proj_func2D_def Rupd_func2D_def copyIm_def clamp_def
  rel_resid_def resid_sums_def for_loop.simps fdiv_def DimTotal_def residual_def denominator_def

text \<open>
  C4. A pass through the loop body adds one to \<^verbatim>\<open>count\<close> when its residual is below
  \<^verbatim>\<open>epsil\<close> and leaves it as it is otherwise; the rest of the iteration does not touch
  it, so at the head of iteration \<open>n\<close> it is the number of earlier iterations below the
  tolerance, consecutive or not. The call leaves the loop at the first iteration \<open>n\<close>
  below the cap at which that number, this iteration included, exceeds 4 (it is then 5),
  with \<^verbatim>\<open>ll = n\<close> and the state as the first part of the body left it; when the number
  stays at most 4 up to the cap, the loop runs to the cap.
\<close>

theorem C4_cumulative_counter:
  "count (loop_body c b s) = count s + (if flt (residual c b s) (epsil c) then 1 else 0) \<and>
   count (loop_tail c b s) = count s \<and>
   count (head_state c b h n) = dips c b h n \<and>
   (int n < iter c \<and> dips c b h n \<le> 4 \<and> 4 < dips c b h (Suc n) \<longrightarrow>
      ll_end (TV_FGP_CPU c b h) = int n \<and>
      final (TV_FGP_CPU c b h) = loop_body c b (head_state c b h n) \<and>
      count (final (TV_FGP_CPU c b h)) = 5) \<and>
   (dips c b h (nat (iter c)) \<le> 4 \<longrightarrow>
      ll_end (TV_FGP_CPU c b h) = max 0 (iter c) \<and>
      final (TV_FGP_CPU c b h) = head_state c b h (nat (iter c)))"
proof (intro conjI impI)
  show "count (loop_body c b s) = count s + (if flt (residual c b s) (epsil c) then 1 else 0)"
    by (rule count_body)
  show "count (loop_tail c b s) = count s" by (rule count_tail)
  show "count (head_state c b h n) = dips c b h n" by (rule count_head_state)
next
  assume a: "int n < iter c \<and> dips c b h n \<le> 4 \<and> 4 < dips c b h (Suc n)"
  then have r: "loop_run c b 0 (entry h) = (int n, loop_body c b (head_state c b h n))"
    by (intro stops_at_fifth_dip) simp_all
  show "ll_end (TV_FGP_CPU c b h) = int n" by (simp add: ll_end_run r)
  show "final (TV_FGP_CPU c b h) = loop_body c b (head_state c b h n)" by (simp add: final_run r)
  have "count (loop_body c b (head_state c b h n)) = dips c b h (Suc n)"
    by (simp add: count_body count_head_state)
  moreover have "dips c b h (Suc n) \<le> dips c b h n + 1" by simp
  ultimately show "count (final (TV_FGP_CPU c b h)) = 5" using a by (simp add: final_run r)
next
  assume "dips c b h (nat (iter c)) \<le> 4"
  then have r: "loop_run c b 0 (entry h) = (max 0 (iter c), head_state c b h (nat (iter c)))"
    by (rule runs_to_cap)
  show "ll_end (TV_FGP_CPU c b h) = max 0 (iter c)" by (simp add: ll_end_run r)
  show "final (TV_FGP_CPU c b h) = head_state c b h (nat (iter c))" by (simp add: final_run r)
qed

lemma const_step:
  assumes "mem s 0 = 5" "mem s 900 = 0" "mem s 1000 = 0" "mem s 600 = 0" "mem s 700 = 0"
  shows "residual (cfg 1 10 2 0 0 1 1 1) blk s = Fin (sqrt ((5 - mem s 200)\<^sup>2) / 5) \<and>
    mem (loop_tail (cfg 1 10 2 0 0 1 1 1) blk (loop_body (cfg 1 10 2 0 0 1 1 1) blk s)) 0 = 5 \<and>
    mem (loop_tail (cfg 1 10 2 0 0 1 1 1) blk (loop_body (cfg 1 10 2 0 0 1 1 1) blk s)) 900 = 0 \<and>
    mem (loop_tail (cfg 1 10 2 0 0 1 1 1) blk (loop_body (cfg 1 10 2 0 0 1 1 1) blk s)) 1000 = 0 \<and>
    mem (loop_tail (cfg 1 10 2 0 0 1 1 1) blk (loop_body (cfg 1 10 2 0 0 1 1 1) blk s)) 600 = 0 \<and>
    mem (loop_tail (cfg 1 10 2 0 0 1 1 1) blk (loop_body (cfg 1 10 2 0 0 1 1 1) blk s)) 700 = 0 \<and>
    mem (loop_tail (cfg 1 10 2 0 0 1 1 1) blk (loop_body (cfg 1 10 2 0 0 1 1 1) blk s)) 200 = 5"
proof -
  have "sqrt 25 = 5" by (rule real_sqrt_unique) simp_all
  then show ?thesis
  using assms by (simp add: run2D_defs)
qed


lemma const_run:
  assumes "h 0 = 5" "h 900 = 0" "h 1000 = 0" "h 600 = 0" "h 700 = 0" "h 200 = 0"
  shows
  "mem (head_state (cfg 1 10 2 0 0 1 1 1) blk h n) 0 = 5 \<and>
   mem (head_state (cfg 1 10 2 0 0 1 1 1) blk h n) 900 = 0 \<and>
   mem (head_state (cfg 1 10 2 0 0 1 1 1) blk h n) 1000 = 0 \<and>
   mem (head_state (cfg 1 10 2 0 0 1 1 1) blk h n) 600 = 0 \<and>
   mem (head_state (cfg 1 10 2 0 0 1 1 1) blk h n) 700 = 0 \<and>
   (mem (head_state (cfg 1 10 2 0 0 1 1 1) blk h n) 200 = 0 \<or>
    mem (head_state (cfg 1 10 2 0 0 1 1 1) blk h n) 200 = 5) \<and>
   dips (cfg 1 10 2 0 0 1 1 1) blk h n = int n"
proof (induction n)
  case 0
  show ?case using assms by (simp add: entry_def)
next
  case (Suc n)
  let ?s = "head_state (cfg 1 10 2 0 0 1 1 1) blk h n"
  from Suc have a: "mem ?s 0 = 5" "mem ?s 900 = 0" "mem ?s 1000 = 0" "mem ?s 600 = 0" "mem ?s 700 = 0"
    and v: "mem ?s 200 = 0 \<or> mem ?s 200 = 5"
    and d: "dips (cfg 1 10 2 0 0 1 1 1) blk h n = int n" by blast+
  note st = const_step[OF a]
  have "flt (residual (cfg 1 10 2 0 0 1 1 1) blk ?s) (epsil (cfg 1 10 2 0 0 1 1 1))"
    using v st by (auto simp: cfg_def)
  with d st show ?case by simp
qed

theorem C4_cumulative_counter_witness:
  "int 4 < iter (cfg 1 10 2 0 0 1 1 1) \<and>
   dips (cfg 1 10 2 0 0 1 1 1) blk (heap_of [(0, 5)]) 4 = 4 \<and>
   dips (cfg 1 10 2 0 0 1 1 1) blk (heap_of [(0, 5)]) (Suc 4) = 5 \<and>
   ll_end (TV_FGP_CPU (cfg 1 10 2 0 0 1 1 1) blk (heap_of [(0, 5)])) = 4 \<and>
   count (final (TV_FGP_CPU (cfg 1 10 2 0 0 1 1 1) blk (heap_of [(0, 5)]))) = 5"
proof -
  have i: "int 4 < iter (cfg 1 10 2 0 0 1 1 1)" by (simp add: cfg_def)
  have h: "heap_of [(0, 5)] 0 = 5" "heap_of [(0, 5)] 900 = 0" "heap_of [(0, 5)] 1000 = 0"
    "heap_of [(0, 5)] 600 = 0" "heap_of [(0, 5)] 700 = 0" "heap_of [(0, 5)] 200 = 0" by simp_all
  have "dips (cfg 1 10 2 0 0 1 1 1) blk (heap_of [(0, 5)]) (Suc 4) = int (Suc 4)"
    using const_run[OF h, of "Suc 4"] by blast
  then have d5: "dips (cfg 1 10 2 0 0 1 1 1) blk (heap_of [(0, 5)]) (Suc 4) = 5"
    by (simp only: of_nat_Suc of_nat_numeral)
  have "dips (cfg 1 10 2 0 0 1 1 1) blk (heap_of [(0, 5)]) 4 = int 4"
    using const_run[OF h, of 4] by blast
  then have d4: "dips (cfg 1 10 2 0 0 1 1 1) blk (heap_of [(0, 5)]) 4 = 4"
    by (simp only: of_nat_numeral)
  have "int 4 < iter (cfg 1 10 2 0 0 1 1 1) \<and>
        dips (cfg 1 10 2 0 0 1 1 1) blk (heap_of [(0, 5)]) 4 \<le> 4 \<and>
        4 < dips (cfg 1 10 2 0 0 1 1 1) blk (heap_of [(0, 5)]) (Suc 4)"
    using i by (simp only: d4 d5) simp
  with C4_cumulative_counter[of "cfg 1 10 2 0 0 1 1 1" blk "entry (heap_of [(0, 5)])" "heap_of [(0, 5)]" 4]
  have "ll_end (TV_FGP_CPU (cfg 1 10 2 0 0 1 1 1) blk (heap_of [(0, 5)])) = int 4 \<and>
        count (final (TV_FGP_CPU (cfg 1 10 2 0 0 1 1 1) blk (heap_of [(0, 5)]))) = 5"
    by blast
  then have "ll_end (TV_FGP_CPU (cfg 1 10 2 0 0 1 1 1) blk (heap_of [(0, 5)])) = 4"
    and "count (final (TV_FGP_CPU (cfg 1 10 2 0 0 1 1 1) blk (heap_of [(0, 5)]))) = 5"
    by (simp_all only: of_nat_numeral)
  with i d4 d5 show ?thesis by blast
qed

text \<open>
  C7. The loop body is entered at most \<open>iter\<close> times (never, when \<open>iter\<close> is negative). With
  \<open>epsil = 0\<close> the residual is never below the tolerance, \<^verbatim>\<open>count\<close> stays 0, and the
  body is entered exactly \<open>iter\<close> times.
\<close>

theorem C7_iteration_bound:
  "nruns (final (TV_FGP_CPU c b h)) \<le> max 0 (iter c) \<and>
   (epsil c = 0 \<longrightarrow>
      nruns (final (TV_FGP_CPU c b h)) = max 0 (iter c) \<and>
      ll_end (TV_FGP_CPU c b h) = max 0 (iter c) \<and>
      count (final (TV_FGP_CPU c b h)) = 0)"
proof (intro conjI impI)
  show "nruns (final (TV_FGP_CPU c b h)) \<le> max 0 (iter c)"
    using nruns_bound[of c b 0 "entry h"] by (simp add: final_run entry_def)
next
  assume e: "epsil c = 0"
  then have "dips c b h (nat (iter c)) \<le> 4" by (simp add: dips_eps0)
  then have r: "loop_run c b 0 (entry h) = (max 0 (iter c), head_state c b h (nat (iter c)))"
    by (rule runs_to_cap)
  show "nruns (final (TV_FGP_CPU c b h)) = max 0 (iter c)"
    by (simp add: final_run r nruns_head_state)
  show "ll_end (TV_FGP_CPU c b h) = max 0 (iter c)" by (simp add: ll_end_run r)
  show "count (final (TV_FGP_CPU c b h)) = 0" using e by (simp add: final_run r count_head_state dips_eps0)
qed

theorem C7_iteration_bound_witness:
  "epsil (cfg 1 3 0 0 0 2 2 1) = 0 \<and>
   nruns (final (TV_FGP_CPU (cfg 1 3 0 0 0 2 2 1) blk (heap_of [(0, 5)]))) = 3 \<and>
   ll_end (TV_FGP_CPU (cfg 1 3 0 0 0 2 2 1) blk (heap_of [(0, 5)])) = 3 \<and>
   count (final (TV_FGP_CPU (cfg 1 3 0 0 0 2 2 1) blk (heap_of [(0, 5)]))) = 0"
proof -
  have e: "epsil (cfg 1 3 0 0 0 2 2 1) = 0" and i: "iter (cfg 1 3 0 0 0 2 2 1) = 3"
    by (simp_all add: cfg_def)
  from C7_iteration_bound[of "cfg 1 3 0 0 0 2 2 1" blk "heap_of [(0, 5)]"] e i
  show ?thesis by simp
qed

text \<open>
  C8. In an iteration whose divisor \<^verbatim>\<open>sqrt(re1)\<close> is zero the quotient is an infinity or
  NaN, the test \<^verbatim>\<open>re < epsil\<close> is false, \<^verbatim>\<open>count\<close> keeps its value, and the loop goes
  on to the next iteration.
\<close>

theorem C8_zero_denominator:
  assumes "denominator c b s = 0"
  shows "\<not> flt (residual c b s) (epsil c) \<and>
         count (loop_body c b s) = count s \<and>
         (ll < iter c \<and> count s \<le> 4 \<longrightarrow>
            loop_run c b ll s = loop_run c b (ll + 1) (loop_tail c b (loop_body c b s)))"
proof -
  have nf: "\<not> flt (residual c b s) (epsil c)"
    using assms by (simp add: denominator_def residual_def rel_resid_zero_denominator)
  then have cnt: "count (loop_body c b s) = count s" by (simp add: count_body)
  have "loop_run c b ll s = loop_run c b (ll + 1) (loop_tail c b (loop_body c b s))"
    if "ll < iter c" "count s \<le> 4"
    using that cnt by (subst loop_run_unfold) simp
  with nf cnt show ?thesis by blast
qed

theorem C8_zero_denominator_witness:
  "denominator (cfg 1 2 1 0 0 1 1 1) blk (entry (heap_of [])) = 0 \<and>
   count (entry (heap_of [])) = 0 \<and>
   count (loop_body (cfg 1 2 1 0 0 1 1 1) blk (entry (heap_of []))) = 0 \<and>
   loop_run (cfg 1 2 1 0 0 1 1 1) blk 0 (entry (heap_of []))
     = loop_run (cfg 1 2 1 0 0 1 1 1) blk (0 + 1)
         (loop_tail (cfg 1 2 1 0 0 1 1 1) blk (loop_body (cfg 1 2 1 0 0 1 1 1) blk (entry (heap_of []))))"
proof -
  have d: "denominator (cfg 1 2 1 0 0 1 1 1) blk (entry (heap_of [])) = 0"
    by (simp add: run2D_defs)
  have c: "count (entry (heap_of [])) = 0" by (simp add: entry_def)
  have i: "0 < iter (cfg 1 2 1 0 0 1 1 1)" by (simp add: cfg_def)
  from C8_zero_denominator[OF d, of 0] c i d show ?thesis by simp
qed

section \<open>The values the operators compute\<close>

lemma for_loop_establish_inv:
  assumes inv0: "Inv s"
    and inv: "\<And>i s. 0 \<le> i \<Longrightarrow> i < n \<Longrightarrow> Inv s \<Longrightarrow> Inv (body i s)"
    and est: "\<And>i s. 0 \<le> i \<Longrightarrow> i < n \<Longrightarrow> Inv s \<Longrightarrow> Q i (body i s)"
    and pres: "\<And>i i' s. 0 \<le> i \<Longrightarrow> i < n \<Longrightarrow> 0 \<le> i' \<Longrightarrow> i' < n \<Longrightarrow> Inv s \<Longrightarrow> Q i' s \<Longrightarrow>
                 Q i' (body i s)"
    and rng: "0 \<le> i0" "i0 < n"
  shows "Q i0 (for_loop 0 n body s)"
proof -
  let ?done = "\<lambda>i s. Inv s \<and> (\<forall>i'. 0 \<le> i' \<and> i' < i \<and> i' < n \<longrightarrow> Q i' s)"
  have "?done n (for_loop 0 n body s)"
  proof (rule for_loop_inv[where I = ?done])
    show "?done 0 s" using inv0 by auto
    show "0 \<le> n" using rng by simp
  next
    fix i s assume i: "0 \<le> i" "i < n" and d: "?done i s"
    have "Q i' (body i s)" if i': "0 \<le> i' \<and> i' < i + 1 \<and> i' < n" for i'
    proof (cases "i' = i")
      case True
      then show ?thesis using est i d by simp
    next
      case False
      with i' have "0 \<le> i' \<and> i' < i \<and> i' < n" by simp
      with d have "Q i' s" by blast
      then show ?thesis using pres[OF i] i' d by simp
    qed
    then show "?done (i + 1) (body i s)" using inv[OF i] d by blast
  qed
  with rng show ?thesis by simp
qed

lemma nested2_establish_inv:
  assumes inv0: "Inv s"
    and inv: "\<And>i j s. 0 \<le> i \<Longrightarrow> i < X \<Longrightarrow> 0 \<le> j \<Longrightarrow> j < Y \<Longrightarrow> Inv s \<Longrightarrow> Inv (step i j s)"
    and est: "\<And>i j s. 0 \<le> i \<Longrightarrow> i < X \<Longrightarrow> 0 \<le> j \<Longrightarrow> j < Y \<Longrightarrow> Inv s \<Longrightarrow> Q i j (step i j s)"
    and pres: "\<And>i j i' j' s. 0 \<le> i \<Longrightarrow> i < X \<Longrightarrow> 0 \<le> j \<Longrightarrow> j < Y \<Longrightarrow>
                 0 \<le> i' \<Longrightarrow> i' < X \<Longrightarrow> 0 \<le> j' \<Longrightarrow> j' < Y \<Longrightarrow> Inv s \<Longrightarrow> Q i' j' s \<Longrightarrow>
                 Q i' j' (step i j s)"
    and rng: "0 \<le> i0" "i0 < X" "0 \<le> j0" "j0 < Y"
  shows "Q i0 j0 (for_loop 0 X (\<lambda>i. for_loop 0 Y (\<lambda>j. step i j)) s)"
proof (rule for_loop_establish_inv[where Q = "\<lambda>i. Q i j0" and Inv = Inv, OF inv0 _ _ _ rng(1,2)])
  fix i s assume i: "0 \<le> i" "i < X" and v: "Inv s"
  show "Inv (for_loop 0 Y (step i) s)"
    by (rule for_loop_rule[where P = Inv, OF v]) (simp add: inv i)
  show "Q i j0 (for_loop 0 Y (step i) s)"
    by (rule for_loop_establish_inv[where Q = "Q i" and Inv = Inv, OF v _ _ _ rng(3,4)])
       (simp_all add: inv est pres i)
next
  fix i i' s assume i: "0 \<le> i" "i < X" "0 \<le> i'" "i' < X" and v: "Inv s" and q: "Q i' j0 s"
  have "Inv (for_loop 0 Y (step i) s) \<and> Q i' j0 (for_loop 0 Y (step i) s)"
    by (rule for_loop_rule[where P = "\<lambda>s. Inv s \<and> Q i' j0 s"]) (simp_all add: v q inv pres i rng)
  then show "Q i' j0 (for_loop 0 Y (step i) s)" by simp
qed


lemma idx2D_inj:
  fixes i j i' j' X :: int
  assumes "0 \<le> i" "i < X" "0 \<le> i'" "i' < X" "j * X + i = j' * X + i'"
  shows "i = i' \<and> j = j'"
proof -
  have "(j * X + i) mod X = i mod X" "(j' * X + i') mod X = i' mod X" by simp_all
  moreover have "i mod X = i" "i' mod X = i'" using assms by simp_all
  ultimately have i: "i = i'" using assms(5) by simp
  with assms(5) have "j * X = j' * X" by simp
  moreover have "X \<noteq> 0" using assms by auto
  ultimately show ?thesis using i by simp
qed

lemma nested2_pointwise:
  fixes step :: "int \<Rightarrow> int \<Rightarrow> heap \<Rightarrow> heap"
  assumes frame: "\<And>i j s a. 0 \<le> i \<Longrightarrow> i < X \<Longrightarrow> 0 \<le> j \<Longrightarrow> j < Y \<Longrightarrow> a \<notin> W \<Longrightarrow> step i j s a = s a"
    and other: "\<And>i j i' j' s. 0 \<le> i \<Longrightarrow> i < X \<Longrightarrow> 0 \<le> j \<Longrightarrow> j < Y \<Longrightarrow>
                  0 \<le> i' \<Longrightarrow> i' < X \<Longrightarrow> 0 \<le> j' \<Longrightarrow> j' < Y \<Longrightarrow> j' * X + i' \<noteq> j * X + i \<Longrightarrow>
                  step i j s (p + (j' * X + i')) = s (p + (j' * X + i'))"
    and val: "\<And>i j s. 0 \<le> i \<Longrightarrow> i < X \<Longrightarrow> 0 \<le> j \<Longrightarrow> j < Y \<Longrightarrow> (\<forall>a. a \<notin> W \<longrightarrow> s a = h a) \<Longrightarrow>
                  step i j s (p + (j * X + i)) = F i j"
    and rng: "0 \<le> i0" "i0 < X" "0 \<le> j0" "j0 < Y"
  shows "for_loop 0 X (\<lambda>i. for_loop 0 Y (\<lambda>j. step i j)) h (p + (j0 * X + i0)) = F i0 j0"
proof (rule nested2_establish_inv[where Inv = "\<lambda>s. \<forall>a. a \<notin> W \<longrightarrow> s a = h a"
      and Q = "\<lambda>i j s. s (p + (j * X + i)) = F i j", OF _ _ _ _ rng], goal_cases)
  case 1
  show ?case by simp
next
  case (2 i j s)
  then show ?case by (simp add: frame)
next
  case (3 i j s)
  then show ?case by (intro val) simp_all
next
  case (4 i j i' j' s)
  show ?case
  proof (cases "j' * X + i' = j * X + i")
    case True
    then have "i' = i \<and> j' = j" using idx2D_inj[of i' X i j' j] 4 by simp
    with val[OF 4(1-4) 4(9)] show ?thesis by simp
  next
    case False
    with 4(10) other[OF 4(1-8) False] show ?thesis by simp
  qed
qed

lemma Obj_func2D_value:
  assumes s: "sep (X * Y) A D" "sep (X * Y) ra D" "sep (X * Y) rb D"
    and rng: "0 \<le> i" "i < X" "0 \<le> j" "j < Y"
  shows "Obj_func2D A D ra rb lam X Y h (D + (j * X + i)) =
           h (A + (j * X + i)) - lam * (h (ra + (j * X + i)) + h (rb + (j * X + i))
             - (if i = 0 then 0 else h (ra + (j * X + (i - 1))))
             - (if j = 0 then 0 else h (rb + ((j - 1) * X + i))))"
  unfolding Obj_func2D_def
proof (rule nested2_pointwise[where W = "region D (X * Y)" and p = D, OF _ _ _ rng], goal_cases)
  case (1 i j s a)
  then show ?case by (simp add: Let_def outside2D)
next
  case (2 i j i' j' s)
  then show ?case by (simp add: Let_def)
next
  case (3 i j h')
  have a: "A + (j * X + i) \<notin> region D (X * Y)" "ra + (j * X + i) \<notin> region D (X * Y)"
    "rb + (j * X + i) \<notin> region D (X * Y)"
    using s idx2D_bounds[OF 3(1-4)] by (simp_all add: sep_outside)
  have b: "ra + (j * X + (i - 1)) \<notin> region D (X * Y)" if "i \<noteq> 0"
    using that s(2) idx2D_bounds[of "i - 1" X j Y] 3(1-4) by (simp add: sep_outside)
  have c: "rb + ((j - 1) * X + i) \<notin> region D (X * Y)" if "j \<noteq> 0"
    using that s(3) idx2D_bounds[of i X "j - 1" Y] 3(1-4) by (simp add: sep_outside)
  show ?case using 3(5) a b c by (simp add: Let_def)
qed


lemma Grad_func2D_value:
  assumes s: "sep (X * Y) pa pb" "sep (X * Y) D pa" "sep (X * Y) D pb" "sep (X * Y) ra pa"
      "sep (X * Y) ra pb" "sep (X * Y) rb pa" "sep (X * Y) rb pb"
    and rng: "0 \<le> i" "i < X" "0 \<le> j" "j < Y"
  shows "Grad_func2D pa pb D ra rb lam X Y h (pa + (j * X + i)) =
           h (ra + (j * X + i)) + 1 / (8 * lam) *
             (if i = X - 1 then 0 else h (D + (j * X + i)) - h (D + (j * X + (i + 1))))"
    and "Grad_func2D pa pb D ra rb lam X Y h (pb + (j * X + i)) =
           h (rb + (j * X + i)) + 1 / (8 * lam) *
             (if j = Y - 1 then 0 else h (D + (j * X + i)) - h (D + ((j + 1) * X + i)))"
proof -
  let ?W = "region pa (X * Y) \<union> region pb (X * Y)"
  have out: "D + (j * X + i) \<notin> ?W" "ra + (j * X + i) \<notin> ?W" "rb + (j * X + i) \<notin> ?W"
    if "0 \<le> i" "i < X" "0 \<le> j" "j < Y" for i j
    using s idx2D_bounds[OF that] by (simp_all add: sep_outside)
  show "Grad_func2D pa pb D ra rb lam X Y h (pa + (j * X + i)) =
           h (ra + (j * X + i)) + 1 / (8 * lam) *
             (if i = X - 1 then 0 else h (D + (j * X + i)) - h (D + (j * X + (i + 1))))"
    unfolding Grad_func2D_def Let_def
  proof (rule nested2_pointwise[where W = ?W and p = pa, OF _ _ _ rng], goal_cases)
    case (1 i j s a)
    then have "a \<notin> region pa (X * Y)" "a \<notin> region pb (X * Y)" by simp_all
    with 1(1-4) show ?case by (simp add: outside2D)
  next
    case (2 i j i' j' s)
    with sep_neq2D[OF s(1) 2(5-8) 2(1-4)] show ?case by simp
  next
    case (3 i j h')
    have "D + (j * X + (i + 1)) \<notin> ?W" if "i \<noteq> X - 1"
      using that out(1)[of "i + 1" j] 3(1-4) by simp
    with 3 out[OF 3(1-4)] sep_neq2D[OF s(1) 3(1-4) 3(1-4)] show ?case by simp
  qed
  show "Grad_func2D pa pb D ra rb lam X Y h (pb + (j * X + i)) =
           h (rb + (j * X + i)) + 1 / (8 * lam) *
             (if j = Y - 1 then 0 else h (D + (j * X + i)) - h (D + ((j + 1) * X + i)))"
    unfolding Grad_func2D_def Let_def
  proof (rule nested2_pointwise[where W = ?W and p = pb, OF _ _ _ rng], goal_cases)
    case (1 i j s a)
    then have "a \<notin> region pa (X * Y)" "a \<notin> region pb (X * Y)" by simp_all
    with 1(1-4) show ?case by (simp add: outside2D)
  next
    case (2 i j i' j' s)
    with sep_neq2D[OF s(1) 2(1-8)] show ?case by simp
  next
    case (3 i j h')
    have "D + ((j + 1) * X + i) \<notin> ?W" if "j \<noteq> Y - 1"
      using that out(1)[of i "j + 1"] 3(1-4) by simp
    moreover have "rb + (j * X + i) \<noteq> pa + (j * X + i)" using sep_neq2D[OF s(6) 3(1-4) 3(1-4)] by simp
    ultimately show ?case using 3 out[OF 3(1-4)] by simp
  qed
qed

lemma Rupd_func2D_value:
  assumes s: "sep (X * Y) ra rb" "sep (X * Y) pa ra" "sep (X * Y) pa rb" "sep (X * Y) pa' ra"
      "sep (X * Y) pa' rb" "sep (X * Y) pb ra" "sep (X * Y) pb rb" "sep (X * Y) pb' ra" "sep (X * Y) pb' rb"
    and rng: "0 \<le> i" "i < X" "0 \<le> j" "j < Y"
  shows "Rupd_func2D pa pa' pb pb' ra rb t' t X Y h (ra + (j * X + i)) =
           h (pa + (j * X + i)) + (t - 1) / t' * (h (pa + (j * X + i)) - h (pa' + (j * X + i)))"
    and "Rupd_func2D pa pa' pb pb' ra rb t' t X Y h (rb + (j * X + i)) =
           h (pb + (j * X + i)) + (t - 1) / t' * (h (pb + (j * X + i)) - h (pb' + (j * X + i)))"
proof -
  let ?W = "region ra (X * Y) \<union> region rb (X * Y)"
  have out: "pa + (j * X + i) \<notin> ?W" "pa' + (j * X + i) \<notin> ?W" "pb + (j * X + i) \<notin> ?W"
    "pb' + (j * X + i) \<notin> ?W"
    if "0 \<le> i" "i < X" "0 \<le> j" "j < Y" for i j
    using s idx2D_bounds[OF that] by (simp_all add: sep_outside)
  show "Rupd_func2D pa pa' pb pb' ra rb t' t X Y h (ra + (j * X + i)) =
           h (pa + (j * X + i)) + (t - 1) / t' * (h (pa + (j * X + i)) - h (pa' + (j * X + i)))"
    unfolding Rupd_func2D_def Let_def
  proof (rule nested2_pointwise[where W = ?W and p = ra, OF _ _ _ rng], goal_cases)
    case (1 i j s a)
    then have "a \<notin> region ra (X * Y)" "a \<notin> region rb (X * Y)" by simp_all
    with 1(1-4) show ?case by (simp add: outside2D)
  next
    case (2 i j i' j' s)
    with sep_neq2D[OF s(1) 2(5-8) 2(1-4)] show ?case by simp
  next
    case (3 i j h')
    with out[OF 3(1-4)] sep_neq2D[OF s(1) 3(1-4) 3(1-4)] show ?case by simp
  qed
  show "Rupd_func2D pa pa' pb pb' ra rb t' t X Y h (rb + (j * X + i)) =
           h (pb + (j * X + i)) + (t - 1) / t' * (h (pb + (j * X + i)) - h (pb' + (j * X + i)))"
    unfolding Rupd_func2D_def Let_def
  proof (rule nested2_pointwise[where W = ?W and p = rb, OF _ _ _ rng], goal_cases)
    case (1 i j s a)
    then have "a \<notin> region ra (X * Y)" "a \<notin> region rb (X * Y)" by simp_all
    with 1(1-4) show ?case by (simp add: outside2D)
  next
    case (2 i j i' j' s)
    with sep_neq2D[OF s(1) 2(1-8)] show ?case by simp
  next
    case (3 i j h')
    have "pb + (j * X + i) \<noteq> ra + (j * X + i)" "pb' + (j * X + i) \<noteq> ra + (j * X + i)"
      using sep_neq2D[OF s(6) 3(1-4) 3(1-4)] sep_neq2D[OF s(8) 3(1-4) 3(1-4)] by simp_all
    with 3 out[OF 3(1-4)] show ?case by simp
  qed
qed

lemma copyIm_value:
  assumes s: "sep (X * Y * Z) A U" and rng: "0 \<le> j" "j < X * Y * Z"
  shows "copyIm A U X Y Z h (U + j) = h (A + j)"
  unfolding copyIm_def
proof (rule for_loop_establish_inv[where Inv = "\<lambda>s. \<forall>a. a \<notin> region U (X * Y * Z) \<longrightarrow> s a = h a"
      and Q = "\<lambda>j s. s (U + j) = h (A + j)", OF _ _ _ _ rng], goal_cases)
  case 1
  show ?case by simp
next
  case (2 i s)
  then show ?case by (simp add: outside1D)
next
  case (3 i s)
  with sep_outside[OF s 3(1,2)] show ?case by simp
next
  case (4 i i' s)
  with sep_outside[OF s 4(1,2)] show ?case by auto
qed

section \<open>A constant input\<close>

lemma const_onI:
  "(\<And>i j. 0 \<le> i \<Longrightarrow> i < X \<Longrightarrow> 0 \<le> j \<Longrightarrow> j < Y \<Longrightarrow> h (p + (j * X + i)) = v) \<Longrightarrow> const_on X Y p v h"
  by (simp add: const_on_def)

lemma const_onD:
  "const_on X Y p v h \<Longrightarrow> 0 \<le> i \<Longrightarrow> i < X \<Longrightarrow> 0 \<le> j \<Longrightarrow> j < Y \<Longrightarrow> h (p + (j * X + i)) = v"
  by (simp add: const_on_def)

lemma const_on_kept:
  assumes "const_on X Y p v h" and "\<And>a. a \<in> region p (X * Y) \<Longrightarrow> h' a = h a"
  shows "const_on X Y p v h'"
proof (rule const_onI)
  fix i j assume r: "0 \<le> i" "i < X" "0 \<le> j" "j < Y"
  then have "p + (j * X + i) \<in> region p (X * Y)" by (rule in_region2D)
  then show "h' (p + (j * X + i)) = v" using assms r by (simp add: const_onD)
qed

lemma apart_outside: "sep n p q \<Longrightarrow> a \<in> region p n \<Longrightarrow> a \<notin> region q n"
  by (auto simp: sep_def region_def)

lemma Obj_func2D_const:
  assumes s: "sep (X * Y) A D" "sep (X * Y) ra D" "sep (X * Y) rb D"
    and c: "const_on X Y A v h" "const_on X Y ra 0 h" "const_on X Y rb 0 h"
  shows "const_on X Y D v (Obj_func2D A D ra rb lam X Y h)"
proof (rule const_onI)
  fix i j assume r: "0 \<le> i" "i < X" "0 \<le> j" "j < Y"
  have "h (ra + (j * X + (i - 1))) = 0" if "i \<noteq> 0"
    using that r by (intro const_onD[OF c(2)]) simp_all
  moreover have "h (rb + ((j - 1) * X + i)) = 0" if "j \<noteq> 0"
    using that r by (intro const_onD[OF c(3)]) simp_all
  ultimately show "Obj_func2D A D ra rb lam X Y h (D + (j * X + i)) = v"
    using r by (simp add: Obj_func2D_value[OF s r] const_onD[OF c(1)] const_onD[OF c(2)] const_onD[OF c(3)])
qed

lemma Grad_func2D_const:
  assumes s: "sep (X * Y) pa pb" "sep (X * Y) D pa" "sep (X * Y) D pb" "sep (X * Y) ra pa"
      "sep (X * Y) ra pb" "sep (X * Y) rb pa" "sep (X * Y) rb pb"
    and c: "const_on X Y D v h" "const_on X Y ra 0 h" "const_on X Y rb 0 h"
  shows "const_on X Y pa 0 (Grad_func2D pa pb D ra rb lam X Y h)"
    and "const_on X Y pb 0 (Grad_func2D pa pb D ra rb lam X Y h)"
proof -
  have nb: "h (D + (j * X + (i + 1))) = v" if "0 \<le> i" "i < X" "0 \<le> j" "j < Y" "i \<noteq> X - 1" for i j
    using that by (intro const_onD[OF c(1)]) simp_all
  have nb2: "h (D + ((j + 1) * X + i)) = v" if "0 \<le> i" "i < X" "0 \<le> j" "j < Y" "j \<noteq> Y - 1" for i j
    using that by (intro const_onD[OF c(1)]) simp_all
  show "const_on X Y pa 0 (Grad_func2D pa pb D ra rb lam X Y h)"
  proof (rule const_onI)
    fix i j assume r: "0 \<le> i" "i < X" "0 \<le> j" "j < Y"
    show "Grad_func2D pa pb D ra rb lam X Y h (pa + (j * X + i)) = 0"
      using r nb[OF r] by (simp add: Grad_func2D_value(1)[OF s r] const_onD[OF c(1)] const_onD[OF c(2)])
  qed
  show "const_on X Y pb 0 (Grad_func2D pa pb D ra rb lam X Y h)"
  proof (rule const_onI)
    fix i j assume r: "0 \<le> i" "i < X" "0 \<le> j" "j < Y"
    show "Grad_func2D pa pb D ra rb lam X Y h (pb + (j * X + i)) = 0"
      using r nb2[OF r] by (simp add: Grad_func2D_value(2)[OF s r] const_onD[OF c(1)] const_onD[OF c(3)])
  qed
qed

lemma Proj_func2D_const:
  assumes s: "sep (X * Y) pa pb" and c: "const_on X Y pa 0 h" "const_on X Y pb 0 h"
  shows "const_on X Y pa 0 (Proj_func2D pa pb m X Y h)"
    and "const_on X Y pb 0 (Proj_func2D pa pb m X Y h)"
proof -
  have "Proj_func2D pa pb m X Y h (pa + (j * X + i)) = 0 \<and> Proj_func2D pa pb m X Y h (pb + (j * X + i)) = 0"
    if r: "0 \<le> i" "i < X" "0 \<le> j" "j < Y" for i j
  proof (cases "m = 0")
    case True
    with Proj_func2D_iso_inside[OF s r, of h] const_onD[OF c(1) r] const_onD[OF c(2) r]
    show ?thesis by simp
  next
    case False
    with Proj_func2D_aniso_inside[OF s r False, of h] const_onD[OF c(1) r] const_onD[OF c(2) r]
    show ?thesis by simp
  qed
  then show "const_on X Y pa 0 (Proj_func2D pa pb m X Y h)"
    and "const_on X Y pb 0 (Proj_func2D pa pb m X Y h)"
    by (simp_all add: const_onI)
qed

lemma Rupd_func2D_const:
  assumes s: "sep (X * Y) ra rb" "sep (X * Y) pa ra" "sep (X * Y) pa rb" "sep (X * Y) pa' ra"
      "sep (X * Y) pa' rb" "sep (X * Y) pb ra" "sep (X * Y) pb rb" "sep (X * Y) pb' ra" "sep (X * Y) pb' rb"
    and c: "const_on X Y pa 0 h" "const_on X Y pb 0 h"
    and t: "t = 1 \<or> (const_on X Y pa' 0 h \<and> const_on X Y pb' 0 h)"
  shows "const_on X Y ra 0 (Rupd_func2D pa pa' pb pb' ra rb t' t X Y h)"
    and "const_on X Y rb 0 (Rupd_func2D pa pa' pb pb' ra rb t' t X Y h)"
proof -
  show "const_on X Y ra 0 (Rupd_func2D pa pa' pb pb' ra rb t' t X Y h)"
  proof (rule const_onI)
    fix i j assume r: "0 \<le> i" "i < X" "0 \<le> j" "j < Y"
    show "Rupd_func2D pa pa' pb pb' ra rb t' t X Y h (ra + (j * X + i)) = 0"
      using t r by (auto simp: Rupd_func2D_value(1)[OF s r] const_onD[OF c(1) r] const_onD)
  qed
  show "const_on X Y rb 0 (Rupd_func2D pa pa' pb pb' ra rb t' t X Y h)"
  proof (rule const_onI)
    fix i j assume r: "0 \<le> i" "i < X" "0 \<le> j" "j < Y"
    show "Rupd_func2D pa pa' pb pb' ra rb t' t X Y h (rb + (j * X + i)) = 0"
      using t r by (auto simp: Rupd_func2D_value(2)[OF s r] const_onD[OF c(2) r] const_onD)
  qed
qed

lemma copyIm_const:
  assumes s: "sep (X * Y) A U" and c: "const_on X Y A v h"
  shows "const_on X Y U v (copyIm A U X Y 1 h)"
proof (rule const_onI)
  fix i j assume r: "0 \<le> i" "i < X" "0 \<le> j" "j < Y"
  have "copyIm A U X Y 1 h (U + (j * X + i)) = h (A + (j * X + i))"
    using s idx2D_bounds[OF r] by (intro copyIm_value) simp_all
  then show "copyIm A U X Y 1 h (U + (j * X + i)) = v" using const_onD[OF c r] by simp
qed

lemma Obj_func2D_keeps:
  "const_on X Y p v h \<Longrightarrow> sep (X * Y) p D \<Longrightarrow> const_on X Y p v (Obj_func2D A D ra rb lam X Y h)"
  by (erule const_on_kept) (simp add: Obj_func2D_frame apart_outside)

lemma Grad_func2D_keeps:
  "const_on X Y p v h \<Longrightarrow> sep (X * Y) p pa \<Longrightarrow> sep (X * Y) p pb \<Longrightarrow>
     const_on X Y p v (Grad_func2D pa pb D ra rb lam X Y h)"
  by (erule const_on_kept) (simp add: Grad_func2D_frame apart_outside)

lemma Proj_func2D_keeps:
  "const_on X Y p v h \<Longrightarrow> sep (X * Y) p pa \<Longrightarrow> sep (X * Y) p pb \<Longrightarrow>
     const_on X Y p v (Proj_func2D pa pb m X Y h)"
  by (erule const_on_kept) (simp add: Proj_func2D_frame apart_outside)

lemma Rupd_func2D_keeps:
  "const_on X Y p v h \<Longrightarrow> sep (X * Y) p ra \<Longrightarrow> sep (X * Y) p rb \<Longrightarrow>
     const_on X Y p v (Rupd_func2D pa pa' pb pb' ra rb t' t X Y h)"
  by (erule const_on_kept) (simp add: Rupd_func2D_frame apart_outside)

lemma copyIm_keeps:
  assumes "const_on X Y p v h" "sep (X * Y) p U"
  shows "const_on X Y p v (copyIm A U X Y 1 h)"
proof (rule const_on_kept[OF assms(1)])
  fix a assume "a \<in> region p (X * Y)"
  then have "a \<notin> region U (X * Y * 1)" using assms(2) by (simp add: apart_outside)
  then show "copyIm A U X Y 1 h a = h a" by (rule copyIm_frame)
qed

lemma body2D_const:
  assumes ap: "all_apart (dimX c * dimY c) (buffers2D c b)" and nn: "nonneg c \<noteq> 1"
    and k: "duals_zero c b v s"
  shows "const_on (dimX c) (dimY c) (Output c) v (mem (body2D c b s))"
    and "const_on (dimX c) (dimY c) (Input c) v (mem (body2D c b s))"
    and "const_on (dimX c) (dimY c) (R1 b) 0 (mem (body2D c b s))"
    and "const_on (dimX c) (dimY c) (R2 b) 0 (mem (body2D c b s))"
    and "const_on (dimX c) (dimY c) (P1 b) 0 (mem (body2D c b s))"
    and "const_on (dimX c) (dimY c) (P2 b) 0 (mem (body2D c b s))"
proof -
  let ?X = "dimX c" and ?Y = "dimY c"
  let ?n = "?X * ?Y"
  from ap have s:
    "sep ?n (Input c) (Output c)" "sep ?n (R1 b) (Output c)" "sep ?n (R2 b) (Output c)"
    "sep ?n (P1_prev b) (Output c)" "sep ?n (P2_prev b) (Output c)"
    "sep ?n (P1 b) (P2 b)" "sep ?n (Output c) (P1 b)" "sep ?n (Output c) (P2 b)"
    "sep ?n (R1 b) (P1 b)" "sep ?n (R1 b) (P2 b)" "sep ?n (R2 b) (P1 b)" "sep ?n (R2 b) (P2 b)"
    "sep ?n (Input c) (P1 b)" "sep ?n (Input c) (P2 b)"
    "sep ?n (P1_prev b) (P1 b)" "sep ?n (P1_prev b) (P2 b)"
    "sep ?n (P2_prev b) (P1 b)" "sep ?n (P2_prev b) (P2 b)"
    "sep ?n (R1 b) (R2 b)" "sep ?n (P1 b) (R1 b)" "sep ?n (P1 b) (R2 b)"
    "sep ?n (P2 b) (R1 b)" "sep ?n (P2 b) (R2 b)"
    "sep ?n (P1_prev b) (R1 b)" "sep ?n (P1_prev b) (R2 b)"
    "sep ?n (P2_prev b) (R1 b)" "sep ?n (P2_prev b) (R2 b)"
    "sep ?n (Input c) (R1 b)" "sep ?n (Input c) (R2 b)"
    "sep ?n (Output c) (R1 b)" "sep ?n (Output c) (R2 b)"
    by (simp_all add: buffers2D_def)
  from k have k0: "const_on ?X ?Y (Input c) v (mem s)" "const_on ?X ?Y (R1 b) 0 (mem s)"
    "const_on ?X ?Y (R2 b) 0 (mem s)"
    and kt: "tk s = 1 \<or> const_on ?X ?Y (P1_prev b) 0 (mem s) \<and> const_on ?X ?Y (P2_prev b) 0 (mem s)"
    by (simp_all add: duals_zero_def)
  define h1 where "h1 = Obj_func2D (Input c) (Output c) (R1 b) (R2 b) (lambda c) ?X ?Y (mem s)"
  define h3 where "h3 = Grad_func2D (P1 b) (P2 b) (Output c) (R1 b) (R2 b) (lambda c) ?X ?Y h1"
  define h4 where "h4 = Proj_func2D (P1 b) (P2 b) (methodTV c) ?X ?Y h3"
  define t' where "t' = (1 + sqrt (1 + 4 * tk s * tk s)) * 0.5"
  define h5 where "h5 = Rupd_func2D (P1 b) (P1_prev b) (P2 b) (P2_prev b) (R1 b) (R2 b) t' (tk s) ?X ?Y h4"
  have m: "mem (body2D c b s) = h5"
    using nn by (simp add: body2D_def Let_def clamp_def h1_def h3_def h4_def h5_def t'_def)
  have o1: "const_on ?X ?Y (Output c) v h1"
    unfolding h1_def by (rule Obj_func2D_const[OF s(1-3) k0])
  have i1: "const_on ?X ?Y (Input c) v h1" and r1: "const_on ?X ?Y (R1 b) 0 h1" "const_on ?X ?Y (R2 b) 0 h1"
    unfolding h1_def using k0 s by (simp_all add: Obj_func2D_keeps)
  have p3: "const_on ?X ?Y (P1 b) 0 h3" "const_on ?X ?Y (P2 b) 0 h3"
    unfolding h3_def
    by (rule Grad_func2D_const[OF s(6) s(7) s(8) s(9) s(10) s(11) s(12) o1 r1])+
  have o3: "const_on ?X ?Y (Output c) v h3" and i3: "const_on ?X ?Y (Input c) v h3"
    unfolding h3_def using o1 i1 s by (simp_all add: Grad_func2D_keeps)
  have p4: "const_on ?X ?Y (P1 b) 0 h4" "const_on ?X ?Y (P2 b) 0 h4"
    unfolding h4_def by (rule Proj_func2D_const[OF s(6) p3])+
  have o4: "const_on ?X ?Y (Output c) v h4" and i4: "const_on ?X ?Y (Input c) v h4"
    unfolding h4_def using o3 i3 s by (simp_all add: Proj_func2D_keeps)
  have kt4: "tk s = 1 \<or> const_on ?X ?Y (P1_prev b) 0 h4 \<and> const_on ?X ?Y (P2_prev b) 0 h4"
    using kt s unfolding h4_def h3_def h1_def
    by (auto simp: Proj_func2D_keeps Grad_func2D_keeps Obj_func2D_keeps)
  have r5: "const_on ?X ?Y (R1 b) 0 h5" "const_on ?X ?Y (R2 b) 0 h5"
    unfolding h5_def
    by (rule Rupd_func2D_const[OF s(19) s(20) s(21) s(24) s(25) s(22) s(23) s(26) s(27) p4 kt4])+
  have o5: "const_on ?X ?Y (Output c) v h5" and i5: "const_on ?X ?Y (Input c) v h5"
    and p5: "const_on ?X ?Y (P1 b) 0 h5" "const_on ?X ?Y (P2 b) 0 h5"
    unfolding h5_def using o4 i4 p4 s by (simp_all add: Rupd_func2D_keeps)
  show "const_on ?X ?Y (Output c) v (mem (body2D c b s))"
    and "const_on ?X ?Y (Input c) v (mem (body2D c b s))"
    and "const_on ?X ?Y (R1 b) 0 (mem (body2D c b s))"
    and "const_on ?X ?Y (R2 b) 0 (mem (body2D c b s))"
    and "const_on ?X ?Y (P1 b) 0 (mem (body2D c b s))"
    and "const_on ?X ?Y (P2 b) 0 (mem (body2D c b s))"
    using o5 i5 r5 p5 by (simp_all add: m)
qed

lemma tail2D_const:
  assumes ap: "all_apart (dimX c * dimY c) (buffers2D c b)"
    and o: "const_on (dimX c) (dimY c) (Output c) v (mem s)"
    and i: "const_on (dimX c) (dimY c) (Input c) v (mem s)"
    and r: "const_on (dimX c) (dimY c) (R1 b) 0 (mem s)" "const_on (dimX c) (dimY c) (R2 b) 0 (mem s)"
    and p: "const_on (dimX c) (dimY c) (P1 b) 0 (mem s)" "const_on (dimX c) (dimY c) (P2 b) 0 (mem s)"
  shows "const_on (dimX c) (dimY c) (Output c) v (mem (tail2D c b s))"
    and "duals_zero c b v (tail2D c b s)"
proof -
  let ?X = "dimX c" and ?Y = "dimY c"
  let ?n = "?X * ?Y"
  from ap have s:
    "sep ?n (Output c) (Output_prev b)" "sep ?n (Output c) (P1_prev b)" "sep ?n (Output c) (P2_prev b)"
    "sep ?n (Input c) (Output_prev b)" "sep ?n (Input c) (P1_prev b)" "sep ?n (Input c) (P2_prev b)"
    "sep ?n (R1 b) (Output_prev b)" "sep ?n (R1 b) (P1_prev b)" "sep ?n (R1 b) (P2_prev b)"
    "sep ?n (R2 b) (Output_prev b)" "sep ?n (R2 b) (P1_prev b)" "sep ?n (R2 b) (P2_prev b)"
    "sep ?n (P1 b) (Output_prev b)" "sep ?n (P1 b) (P1_prev b)"
    "sep ?n (P2 b) (Output_prev b)" "sep ?n (P2 b) (P1_prev b)" "sep ?n (P2 b) (P2_prev b)"
    "sep ?n (P1_prev b) (P2_prev b)"
    by (simp_all add: buffers2D_def)
  define h1 where "h1 = copyIm (Output c) (Output_prev b) ?X ?Y 1 (mem s)"
  define h2 where "h2 = copyIm (P1 b) (P1_prev b) ?X ?Y 1 h1"
  define h3 where "h3 = copyIm (P2 b) (P2_prev b) ?X ?Y 1 h2"
  have m: "mem (tail2D c b s) = h3" by (simp add: tail2D_def Let_def h1_def h2_def h3_def)
  have a1: "const_on ?X ?Y (Output c) v h1" "const_on ?X ?Y (Input c) v h1"
    "const_on ?X ?Y (R1 b) 0 h1" "const_on ?X ?Y (R2 b) 0 h1"
    "const_on ?X ?Y (P1 b) 0 h1" "const_on ?X ?Y (P2 b) 0 h1"
    unfolding h1_def using o i r p s by (simp_all add: copyIm_keeps)
  have q2: "const_on ?X ?Y (P1_prev b) 0 h2"
    unfolding h2_def by (rule copyIm_const[OF s(14) a1(5)])
  have a2: "const_on ?X ?Y (Output c) v h2" "const_on ?X ?Y (Input c) v h2"
    "const_on ?X ?Y (R1 b) 0 h2" "const_on ?X ?Y (R2 b) 0 h2" "const_on ?X ?Y (P2 b) 0 h2"
    unfolding h2_def using a1 s by (simp_all add: copyIm_keeps)
  have q3: "const_on ?X ?Y (P2_prev b) 0 h3"
    unfolding h3_def by (rule copyIm_const[OF s(17) a2(5)])
  have a3: "const_on ?X ?Y (Output c) v h3" "const_on ?X ?Y (Input c) v h3"
    "const_on ?X ?Y (R1 b) 0 h3" "const_on ?X ?Y (R2 b) 0 h3" "const_on ?X ?Y (P1_prev b) 0 h3"
    unfolding h3_def using a2 q2 s by (simp_all add: copyIm_keeps)
  show "const_on ?X ?Y (Output c) v (mem (tail2D c b s))" using a3 by (simp add: m)
  show "duals_zero c b v (tail2D c b s)" using a3 q3 by (simp add: duals_zero_def m)
qed

lemma loop2D_const:
  "all_apart (dimX c * dimY c) (buffers2D c b) \<Longrightarrow> nonneg c \<noteq> 1 \<Longrightarrow> duals_zero c b v s \<Longrightarrow>
   ll < iter c \<or> const_on (dimX c) (dimY c) (Output c) v (mem s) \<Longrightarrow>
   const_on (dimX c) (dimY c) (Output c) v (mem (snd (loop2D c b ll s)))"
proof (induction c b ll s rule: loop2D.induct)
  case (1 c b ll s)
  note bd = body2D_const[OF "1.prems"(1-3)]
  note tl = tail2D_const[OF "1.prems"(1) bd]
  show ?case
  proof (cases "ll < iter c")
    case True
    show ?thesis
    proof (cases "4 < count (body2D c b s)")
      case True
      with \<open>ll < iter c\<close> bd(1) show ?thesis by (simp add: loop2D.simps[of c b ll])
    next
      case False
      with \<open>ll < iter c\<close> "1.IH"[OF \<open>ll < iter c\<close> refl False "1.prems"(1,2) tl(2)] tl(1) show ?thesis
        by (simp add: loop2D.simps[of c b ll])
    qed
  next
    case False
    with "1.prems"(4) show ?thesis by (simp add: loop2D.simps[of c b ll])
  qed
qed

text \<open>
  With dual arrays that are zero at entry, a constant input is a fixed point: the Output
  of a 2D call with at least one iteration and the flag off is that constant at every
  grid position. (The same holds after each pass through the loop body, by
  \<open>body2D_const\<close> and \<open>tail2D_const\<close>.)
\<close>

lemma constant_input_zeroed_duals:
  assumes "dimZ c \<le> 1" "nonneg c \<noteq> 1" "0 < iter c"
    and "all_apart (dimX c * dimY c) (buffers2D c b)"
    and "const_on (dimX c) (dimY c) (Input c) v h"
    and "const_on (dimX c) (dimY c) (R1 b) 0 h" "const_on (dimX c) (dimY c) (R2 b) 0 h"
  shows "const_on (dimX c) (dimY c) (Output c) v (mem (final (TV_FGP_CPU c b h)))"
proof -
  have "duals_zero c b v (entry h)" using assms(5-7) by (simp add: duals_zero_def entry_def)
  then have "const_on (dimX c) (dimY c) (Output c) v (mem (snd (loop2D c b 0 (entry h))))"
    using assms(2-4) by (intro loop2D_const) simp_all
  then show ?thesis using assms(1) by (simp add: final_2D)
qed

lemma constant_input_zeroed_duals_example:
  "const_on 2 2 100 5
     (mem (final (TV_FGP_CPU (cfg 1 3 0 0 0 2 2 1) blk (heap_of [(0, 5), (1, 5), (2, 5), (3, 5)]))))"
proof -
  let ?c = "cfg 1 3 0 0 0 2 2 1"
  let ?h = "heap_of [(0, 5), (1, 5), (2, 5), (3, 5)]"
  have g: "i = 0 \<or> i = 1" if "0 \<le> i" "i < 2" for i :: int using that by arith
  have a: "all_apart (dimX ?c * dimY ?c) (buffers2D ?c blk)"
    by (simp add: buffers2D_def cfg_def blk_def sep_def)
  have i: "const_on (dimX ?c) (dimY ?c) (Input ?c) 5 ?h"
  proof (rule const_onI)
    fix i j :: int assume "0 \<le> i" "i < dimX ?c" "0 \<le> j" "j < dimY ?c"
    then have "i = 0 \<or> i = 1" "j = 0 \<or> j = 1" by (simp_all add: cfg_def g)
    then show "?h (Input ?c + (j * dimX ?c + i)) = 5" by (auto simp: cfg_def)
  qed
  have r: "const_on (dimX ?c) (dimY ?c) (R1 blk) 0 ?h" "const_on (dimX ?c) (dimY ?c) (R2 blk) 0 ?h"
  proof -
    have "?h (R1 blk + (j * dimX ?c + i)) = 0 \<and> ?h (R2 blk + (j * dimX ?c + i)) = 0"
      if "0 \<le> i" "i < dimX ?c" "0 \<le> j" "j < dimY ?c" for i j :: int
    proof -
      from that have "i = 0 \<or> i = 1" "j = 0 \<or> j = 1" by (simp_all add: cfg_def g)
      then show ?thesis by (auto simp: cfg_def blk_def)
    qed
    then show "const_on (dimX ?c) (dimY ?c) (R1 blk) 0 ?h" "const_on (dimX ?c) (dimY ?c) (R2 blk) 0 ?h"
      by (simp_all add: const_onI)
  qed
  have "const_on (dimX ?c) (dimY ?c) (Output ?c) 5 (mem (final (TV_FGP_CPU ?c blk ?h)))"
    using a i r by (intro constant_input_zeroed_duals) (simp_all add: cfg_def)
  then show ?thesis by (simp add: cfg_def)
qed

section \<open>The dual arrays at entry\<close>

lemma body2D_Output:
  assumes "dimZ c \<le> 1"
    and "\<forall>p \<in> set (allocated c b). sep (DimTotal c) (Output c) p"
    and "0 \<le> j" "j < DimTotal c"
  shows "mem (body2D c b s) (Output c + j) =
         clamp c (dimX c * dimY c)
           (Obj_func2D (Input c) (Output c) (R1 b) (R2 b) (lambda c) (dimX c) (dimY c) (mem s))
           (Output c + j)"
proof -
  let ?n = "dimX c * dimY c"
  have n: "DimTotal c = ?n" using assms(1) by (simp add: DimTotal_def)
  have out: "Output c + j \<notin> region (P1 b) ?n" "Output c + j \<notin> region (P2 b) ?n"
       "Output c + j \<notin> region (R1 b) ?n" "Output c + j \<notin> region (R2 b) ?n"
    using assms n by (simp_all add: allocated_def sep_outside)
  show ?thesis
    by (simp add: body2D_def Let_def Rupd_func2D_frame Proj_func2D_frame Grad_func2D_frame out)
qed

lemma first_pass_Output:
  assumes "dimZ c \<le> 1" "iter c = 1"
    and "\<forall>p \<in> set (allocated c b). sep (DimTotal c) (Output c) p"
    and "0 \<le> j" "j < DimTotal c"
  shows "mem (final (TV_FGP_CPU c b h)) (Output c + j) =
         clamp c (dimX c * dimY c)
           (Obj_func2D (Input c) (Output c) (R1 b) (R2 b) (lambda c) (dimX c) (dimY c) h)
           (Output c + j)"
proof -
  have "mem (snd (loop2D c b 0 (entry h))) (Output c + j) = mem (body2D c b (entry h)) (Output c + j)"
    using assms(2) tail2D_Output[OF assms(1,3,4,5)]
    by (simp add: loop2D.simps[of c b 0] loop2D.simps[of c b 1] Let_def)
  then show ?thesis
    using body2D_Output[OF assms(1,3,4,5), of "entry h"] assms(1) by (simp add: final_2D entry_def)
qed

text \<open>
  C1 fails on the code: the dual arrays \<^verbatim>\<open>R1\<close>, \<^verbatim>\<open>R2\<close> come from \<^verbatim>\<open>malloc\<close> and are
  read by the first \<^verbatim>\<open>Obj_func2D\<close> as they are. On the 2 x 2 grid whose samples are all 5,
  with \<open>lambda = 1\<close>, one iteration and the flag off, a block \<^verbatim>\<open>R1\<close> that holds 1 in its
  first cell gives Output 4 and 6 at the first two positions.
\<close>

theorem C1_constant_input_garbage_duals:
  "heap_of [(0, 5), (1, 5), (2, 5), (3, 5), (900, 1)] (Input (cfg 1 1 0 0 0 2 2 1) + 0) = 5 \<and>
   heap_of [(0, 5), (1, 5), (2, 5), (3, 5), (900, 1)] (Input (cfg 1 1 0 0 0 2 2 1) + 1) = 5 \<and>
   heap_of [(0, 5), (1, 5), (2, 5), (3, 5), (900, 1)] (Input (cfg 1 1 0 0 0 2 2 1) + 2) = 5 \<and>
   heap_of [(0, 5), (1, 5), (2, 5), (3, 5), (900, 1)] (Input (cfg 1 1 0 0 0 2 2 1) + 3) = 5 \<and>
   mem (final (TV_FGP_CPU (cfg 1 1 0 0 0 2 2 1) blk (heap_of [(0, 5), (1, 5), (2, 5), (3, 5), (900, 1)])))
     (Output (cfg 1 1 0 0 0 2 2 1) + 0) = 4 \<and>
   mem (final (TV_FGP_CPU (cfg 1 1 0 0 0 2 2 1) blk (heap_of [(0, 5), (1, 5), (2, 5), (3, 5), (900, 1)])))
     (Output (cfg 1 1 0 0 0 2 2 1) + 1) = 6"
proof -
  let ?c = "cfg 1 1 0 0 0 2 2 1"
  let ?h = "heap_of [(0, 5), (1, 5), (2, 5), (3, 5), (900, 1)]"
  have z: "dimZ ?c \<le> 1" and i: "iter ?c = 1" by (simp_all add: cfg_def)
  have s: "\<forall>p \<in> set (allocated ?c blk). sep (DimTotal ?c) (Output ?c) p"
    by (simp add: allocated_def cfg_def blk_def DimTotal_def sep_def)
  have d: "(0::int) \<le> 0" "0 < DimTotal ?c" "(0::int) \<le> 1" "1 < DimTotal ?c"
    by (simp_all add: cfg_def DimTotal_def)
  have obj: "Obj_func2D 0 100 900 1000 1 2 2 ?h 100 = 4" "Obj_func2D 0 100 900 1000 1 2 2 ?h 101 = 6"
    by (simp_all add: Obj_func2D_def for_loop.simps Let_def)
  have "mem (final (TV_FGP_CPU ?c blk ?h)) (Output ?c + 0) =
          clamp ?c (dimX ?c * dimY ?c)
           (Obj_func2D (Input ?c) (Output ?c) (R1 blk) (R2 blk) (lambda ?c) (dimX ?c) (dimY ?c) ?h)
           (Output ?c + 0)"
    by (rule first_pass_Output[OF z i s d(1,2)])
  also have "\<dots> = 4" using obj by (simp add: cfg_def blk_def clamp_def)
  finally have o0: "mem (final (TV_FGP_CPU ?c blk ?h)) (Output ?c + 0) = 4" .
  have "mem (final (TV_FGP_CPU ?c blk ?h)) (Output ?c + 1) =
          clamp ?c (dimX ?c * dimY ?c)
           (Obj_func2D (Input ?c) (Output ?c) (R1 blk) (R2 blk) (lambda ?c) (dimX ?c) (dimY ?c) ?h)
           (Output ?c + 1)"
    by (rule first_pass_Output[OF z i s d(3,4)])
  also have "\<dots> = 6" using obj by (simp add: cfg_def blk_def clamp_def)
  finally have o1: "mem (final (TV_FGP_CPU ?c blk ?h)) (Output ?c + 1) = 6" .
  have inp: "Input ?c = 0" by (simp add: cfg_def)
  show ?thesis using o0 o1 by (simp add: inp)
qed

text \<open>
  C5 fails on the code: nothing writes the dual arrays between entry and the first
  \<^verbatim>\<open>Obj_func2D\<close>. With 1 in the first cell of \<^verbatim>\<open>R1\<close> at entry, the first pass over the
  one-sample grid holding 5 reads it and gives Output \<open>5 - 1 * (1 + 0) = 4\<close>.
\<close>

theorem C5_duals_not_zeroed:
  "mem (entry (heap_of [(0, 5), (900, 1)])) (R1 blk + 0) = 1 \<and>
   mem (loop_body (cfg 1 1 0 0 0 1 1 1) blk (entry (heap_of [(0, 5), (900, 1)])))
     (Output (cfg 1 1 0 0 0 1 1 1) + 0) = 4"
  by (simp add: run2D_defs)

section \<open>Calls with an invalid configuration\<close>

text \<open>
  C6 as stated fails: a call with \<open>lambda = -1\<close> is not rejected. The loop body runs and
  Output is computed, here \<open>5 - (-1) * (1 + 0) = 6\<close>, and returned.
\<close>

theorem C6_negative_lambda_counterexample:
  "lambda (cfg (- 1) 1 0 0 0 1 1 1) \<le> 0 \<and>
   nruns (final (TV_FGP_CPU (cfg (- 1) 1 0 0 0 1 1 1) blk (heap_of [(0, 5), (900, 1)]))) = 1 \<and>
   mem (final (TV_FGP_CPU (cfg (- 1) 1 0 0 0 1 1 1) blk (heap_of [(0, 5), (900, 1)]))) 100 = 6 \<and>
   ret (TV_FGP_CPU (cfg (- 1) 1 0 0 0 1 1 1) blk (heap_of [(0, 5), (900, 1)])) = 6"
  by (simp add: run2D_defs)

text \<open>
  C6 (as amended). \<^verbatim>\<open>TV_FGP_CPU\<close> checks none of its arguments and has no error result:
  whatever \<open>lambda\<close> and the grid extents are, a call with a positive iteration cap enters
  the loop body at least once, a call with a non-positive one never does, and every call
  returns the first Output sample.
\<close>

theorem C6_no_validation:
  "(0 < iter c \<longrightarrow> 1 \<le> nruns (final (TV_FGP_CPU c b h))) \<and>
   (iter c \<le> 0 \<longrightarrow> nruns (final (TV_FGP_CPU c b h)) = 0) \<and>
   ret (TV_FGP_CPU c b h) = mem (final (TV_FGP_CPU c b h)) (Output c)"
proof (intro conjI impI)
  assume i: "0 < iter c"
  have "nruns (loop_tail c b (loop_body c b (entry h)))
          \<le> nruns (snd (loop_run c b (0 + 1) (loop_tail c b (loop_body c b (entry h)))))"
    by (rule nruns_mono)
  then have "1 \<le> nruns (snd (loop_run c b 0 (entry h)))"
    using i by (subst loop_run_unfold) (simp add: nruns_body nruns_tail entry_def)
  then show "1 \<le> nruns (final (TV_FGP_CPU c b h))" by (simp add: final_run)
next
  assume "iter c \<le> 0"
  then show "nruns (final (TV_FGP_CPU c b h)) = 0"
    by (simp add: final_run entry_def loop_run_unfold[of c b 0])
next
  show "ret (TV_FGP_CPU c b h) = mem (final (TV_FGP_CPU c b h)) (Output c)" by (rule ret_final)
qed

theorem C6_no_validation_witness:
  "lambda (cfg (- 1) 1 0 0 0 1 1 1) \<le> 0 \<and> 0 < iter (cfg (- 1) 1 0 0 0 1 1 1) \<and>
   1 \<le> nruns (final (TV_FGP_CPU (cfg (- 1) 1 0 0 0 1 1 1) blk (heap_of [(0, 5), (900, 1)])))"
proof -
  have i: "0 < iter (cfg (- 1) 1 0 0 0 1 1 1)" and l: "lambda (cfg (- 1) 1 0 0 0 1 1 1) \<le> 0"
    by (simp_all add: cfg_def)
  from C6_no_validation[of "cfg (- 1) 1 0 0 0 1 1 1" blk "heap_of [(0, 5), (900, 1)]"] i l
  show ?thesis by simp
qed

section \<open>A call with a non-positive iteration cap\<close>

lemma loop2D_no_iter: "iter c \<le> ll \<Longrightarrow> loop2D c b ll s = (ll, s)"
  by (simp add: loop2D.simps)

lemma loop3D_no_iter: "iter c \<le> ll \<Longrightarrow> loop3D c b ll s = (ll, s)"
  by (simp add: loop3D.simps)

text \<open>
  C10. When \<open>iter \<le> 0\<close> the loop body is never entered, in the 2D and in the 3D branch:
  the store after the call is the store at entry, Output included, and the value returned
  is the first sample that Output held at entry.
\<close>

theorem C10_no_iteration:
  "iter c \<le> 0 \<Longrightarrow>
     mem (final (TV_FGP_CPU c b h)) = h \<and>
     nruns (final (TV_FGP_CPU c b h)) = 0 \<and>
     ret (TV_FGP_CPU c b h) = h (Output c) \<and>
     ll_end (TV_FGP_CPU c b h) = 0"
  by (simp add: TV_FGP_CPU_def entry_def loop2D_no_iter loop3D_no_iter)

theorem C10_no_iteration_witness:
  "iter (cfg 1 0 0 0 0 2 2 1) \<le> 0 \<and>
   mem (final (TV_FGP_CPU (cfg 1 0 0 0 0 2 2 1) blk (\<lambda>a. 7))) = (\<lambda>a. 7) \<and>
   nruns (final (TV_FGP_CPU (cfg 1 0 0 0 0 2 2 1) blk (\<lambda>a. 7))) = 0 \<and>
   ret (TV_FGP_CPU (cfg 1 0 0 0 0 2 2 1) blk (\<lambda>a. 7)) = 7 \<and>
   ll_end (TV_FGP_CPU (cfg 1 0 0 0 0 2 2 1) blk (\<lambda>a. 7)) = 0"
proof -
  have le: "iter (cfg 1 0 0 0 0 2 2 1) \<le> 0" by (simp add: cfg_def)
  show ?thesis using le C10_no_iteration[OF le, of blk "\<lambda>a. 7"] by simp
qed

section \<open>The Input buffer\<close>

text \<open>
  C9 as stated fails for a call that passes one buffer as Input and as Output: with the
  non-negativity flag on, a single iteration on the one-sample grid holding \<open>-3\<close>
  leaves 0 in the Input buffer.
\<close>

theorem C9_aliased_counterexample:
  "Input ((cfg 1 1 0 0 1 1 1 1)\<lparr>Output := 0\<rparr>) = Output ((cfg 1 1 0 0 1 1 1 1)\<lparr>Output := 0\<rparr>) \<and>
   heap_of [(0, -3)] (Input ((cfg 1 1 0 0 1 1 1 1)\<lparr>Output := 0\<rparr>)) = -3 \<and>
   mem (final (TV_FGP_CPU ((cfg 1 1 0 0 1 1 1 1)\<lparr>Output := 0\<rparr>) blk (heap_of [(0, -3)])))
     (Input ((cfg 1 1 0 0 1 1 1 1)\<lparr>Output := 0\<rparr>)) = 0"
  by (simp add: TV_FGP_CPU_def entry_def cfg_def blk_def Let_def loop2D.simps body2D_def tail2D_def
     Obj_func2D_def Grad_func2D_def Proj_func2D_def Rupd_func2D_def copyIm_def clamp_def rel_resid_def resid_sums_def
     for_loop.simps fdiv_def)

text \<open>
  C9 (as amended). When the Input buffer overlaps neither the Output buffer nor any of the
  allocated blocks, every Input sample holds at return the value it held at entry, in the
  2D and in the 3D branch.
\<close>

theorem C9_input_unchanged_when_separate:
  assumes "sep (DimTotal c) (Input c) (Output c)"
    and "\<forall>p \<in> set (allocated c b). sep (DimTotal c) (Input c) p"
  shows "\<forall>j. 0 \<le> j \<and> j < DimTotal c \<longrightarrow>
           mem (final (TV_FGP_CPU c b h)) (Input c + j) = h (Input c + j)"
proof (intro allI impI)
  fix j assume j: "0 \<le> j \<and> j < DimTotal c"
  have "Input c + j \<notin> footprint c b"
    using assms j by (auto simp: footprint_def dest: sep_outside)
  then show "mem (final (TV_FGP_CPU c b h)) (Input c + j) = h (Input c + j)"
    by (rule TV_FGP_CPU_frame)
qed

theorem C9_input_unchanged_when_separate_witness:
  "sep (DimTotal (cfg 1 1 0 0 1 1 1 1)) (Input (cfg 1 1 0 0 1 1 1 1)) (Output (cfg 1 1 0 0 1 1 1 1)) \<and>
   mem (final (TV_FGP_CPU (cfg 1 1 0 0 1 1 1 1) blk (heap_of [(0, -3)]))) 0 = -3"
proof -
  have a: "sep (DimTotal (cfg 1 1 0 0 1 1 1 1)) (Input (cfg 1 1 0 0 1 1 1 1)) (Output (cfg 1 1 0 0 1 1 1 1))"
    by (simp add: cfg_def DimTotal_def sep_def)
  have b: "\<forall>p \<in> set (allocated (cfg 1 1 0 0 1 1 1 1) blk).
      sep (DimTotal (cfg 1 1 0 0 1 1 1 1)) (Input (cfg 1 1 0 0 1 1 1 1)) p"
    by (simp add: allocated_def cfg_def blk_def DimTotal_def sep_def)
  have "0 \<le> (0::int) \<and> 0 < DimTotal (cfg 1 1 0 0 1 1 1 1)" by (simp add: cfg_def DimTotal_def)
  with C9_input_unchanged_when_separate[OF a b, of "heap_of [(0, -3)]"]
  have "mem (final (TV_FGP_CPU (cfg 1 1 0 0 1 1 1 1) blk (heap_of [(0, -3)]))) (Input (cfg 1 1 0 0 1 1 1 1) + 0)
          = heap_of [(0, -3)] (Input (cfg 1 1 0 0 1 1 1 1) + 0)" by blast
  then show ?thesis using a b by (simp add: cfg_def)
qed

end
